theory Spec2Isabelle
  imports Complex_Main "HOL-Library.Product_Lexorder" "HOL-Library.Word"
begin

section \<open>Data model: goals, tasks, audit events (goals/store.ts, memory/store.ts)\<close>

text \<open>
  The three tables of the embedded database are lists of rows, in insertion order.
  A DATETIME column written by \<^verbatim>\<open>datetime('now')\<close> holds a clock reading; such a
  reading is a non-empty text in the program, so that JavaScript's truthiness test on the
  column (\<^verbatim>\<open>!task.approved_at\<close>) is the test for NULL, written \<open>= None\<close> here.
  Row ids are the positive integers SQLite's AUTOINCREMENT hands out. The columns
  \<^verbatim>\<open>input\<close> and \<^verbatim>\<open>depends_on\<close> hold \<^verbatim>\<open>JSON.stringify\<close> of a value that every read
  parses back (\<^verbatim>\<open>parseTask\<close>); the rows here keep the value.
\<close>

type_synonym timestamp = nat

text \<open>
  A text held by the database is a \<open>string\<close>. A string of the running program is a
  sequence of UTF-16 code units (\<^verbatim>\<open>slice\<close> and \<^verbatim>\<open>length\<close> count those); \<open>ascii\<close> gives
  the one a literal of the source denotes.
\<close>

type_synonym js_string = "16 word list"

definition ascii :: "string \<Rightarrow> js_string" where
  "ascii cs = map (\<lambda>c. of_nat (of_char c)) cs"

text \<open>
  JSON values, as \<^verbatim>\<open>JSON.parse\<close> returns them. An object is its list of members in
  source order; a later member overrides an earlier one of the same name. Numbers are
  the finite ones.
\<close>

datatype json =
  J_null | J_bool bool | J_num rat | J_str js_string | J_arr "json list"
  | J_obj "(js_string \<times> json) list"

datatype goal_status = G_active | G_paused | G_completed | G_failed | G_cancelled

datatype task_status =
  T_pending | T_queued | T_running | T_completed | T_failed | T_blocked | T_cancelled

record goal =
  g_id :: nat
  g_title :: string
  g_description :: "string option"
  g_status :: goal_status
  priority :: int
  g_created_at :: timestamp
  updated_at :: timestamp
  deadline :: "string option"
  parent_goal_id :: "nat option"
  progress :: rat
  metadata :: string

record task =
  t_id :: nat
  goal_id :: nat
  t_title :: string
  t_description :: "string option"
  t_status :: task_status
  skill :: "string option"
  t_input :: json
  t_output :: "string option"
  depends_on :: "nat list"
  scheduled_at :: "string option"
  started_at :: "timestamp option"
  completed_at :: "timestamp option"
  retry_count :: nat
  max_retries :: nat
  error :: "string option"
  requires_approval :: bool
  approved_at :: "timestamp option"
  t_created_at :: timestamp

record audit_event =
  a_id :: nat
  event_type :: string
  entity_type :: "string option"
  entity_id :: "nat option"
  action :: string
  details :: "string option"
  a_created_at :: timestamp

text \<open>
  The database behind \<^verbatim>\<open>GoalStore.db\<close>. \<open>goal_seq\<close>, \<open>task_seq\<close> and \<open>audit_seq\<close> are
  the AUTOINCREMENT counters (table sqlite_sequence): a new row gets the successor of the
  largest id ever handed out. \<open>clock\<close> is the sequence of readings the coming SQL
  statements will get from \<^verbatim>\<open>datetime('now')\<close>: a statement that reads the time takes
  \<open>clock 0\<close> and shifts the sequence. \<open>foreign_keys\<close> is the connection's setting of
  \<^verbatim>\<open>PRAGMA foreign_keys\<close>, which the source never touches: it decides whether the
  REFERENCES clauses of the schema are enforced.
\<close>

record store =
  goals :: "goal list"
  tasks :: "task list"
  audit_events :: "audit_event list"
  goal_seq :: nat
  task_seq :: nat
  audit_seq :: nat
  clock :: "nat \<Rightarrow> timestamp"
  foreign_keys :: bool

datatype storage_error = Constraint_failed

definition now :: "store \<Rightarrow> timestamp" where
  "now s = clock s 0"

definition tick :: "store \<Rightarrow> store" where
  "tick s = s\<lparr>clock := (\<lambda>n. clock s (Suc n))\<rparr>"

subsection \<open>Template literals\<close>

definition digit_char :: "nat \<Rightarrow> char" where
  "digit_char d = ''0123456789'' ! d"

function show_nat :: "nat \<Rightarrow> string" where
  "show_nat n = (if n < 10 then [digit_char n] else show_nat (n div 10) @ [digit_char (n mod 10)])"
  by pat_completeness auto
termination
  by (relation "measure (\<lambda>n. n)") auto

declare show_nat.simps [simp del]

fun goal_status_name :: "goal_status \<Rightarrow> string" where
  "goal_status_name G_active = ''active''"
| "goal_status_name G_paused = ''paused''"
| "goal_status_name G_completed = ''completed''"
| "goal_status_name G_failed = ''failed''"
| "goal_status_name G_cancelled = ''cancelled''"

text \<open>The arrow of \<^verbatim>\<open>`Goal #${id} -> ${status}`\<close> is U+2192, three bytes in UTF-8.\<close>

definition arrow :: string where
  "arrow = [CHR 0xE2, CHR 0x86, CHR 0x92]"

section \<open>GoalStore\<close>

subsection \<open>Helpers\<close>

definition logAudit :: "string \<Rightarrow> string \<Rightarrow> nat \<Rightarrow> string \<Rightarrow> store \<Rightarrow> store" where
  "logAudit eventType entityType entityId dtls s =
     (tick s)\<lparr>audit_events := audit_events s @
         [\<lparr>a_id = Suc (audit_seq s), event_type = eventType, entity_type = Some entityType,
           entity_id = Some entityId, action = eventType, details = Some dtls,
           a_created_at = now s\<rparr>],
       audit_seq := Suc (audit_seq s)\<rparr>"

subsection \<open>Goal operations\<close>

definition getGoal :: "nat \<Rightarrow> store \<Rightarrow> goal option" where
  "getGoal i s = find (\<lambda>g. g_id g = i) (goals s)"

record goal_options =
  o_description :: "string option"
  o_priority :: "int option"
  o_deadline :: "string option"
  o_parentGoalId :: "nat option"

text \<open>
  The INSERT fails on the CHECK constraint of the priority column, and, when foreign keys
  are enforced, on a parent that does not exist. The exception leaves the store as it was.
  The result is \<^verbatim>\<open>this.getGoal(result.lastInsertRowid)!\<close>: the row of the new id, which
  the INSERT has just put there.
\<close>

definition addGoal :: "string \<Rightarrow> goal_options \<Rightarrow> store \<Rightarrow> storage_error + goal \<times> store" where
  "addGoal title opts s =
     (let p = (case o_priority opts of None \<Rightarrow> 5 | Some q \<Rightarrow> q) in
      if \<not> (1 \<le> p \<and> p \<le> 10) then Inl Constraint_failed
      else if foreign_keys s \<and>
              (case o_parentGoalId opts of None \<Rightarrow> False | Some q \<Rightarrow> getGoal q s = None)
      then Inl Constraint_failed
      else
        let i = Suc (goal_seq s);
            row = \<lparr>g_id = i, g_title = title, g_description = o_description opts,
                   g_status = G_active, priority = p, g_created_at = now s,
                   updated_at = now s, deadline = o_deadline opts,
                   parent_goal_id = o_parentGoalId opts, progress = 0, metadata = ''{}''\<rparr>;
            s1 = (tick s)\<lparr>goals := goals s @ [row], goal_seq := i\<rparr>;
            s2 = logAudit ''goal.created'' ''goal'' i title s1
        in Inr (case getGoal i s2 of Some g \<Rightarrow> g | None \<Rightarrow> row, s2))"

definition updateGoalStatus :: "nat \<Rightarrow> goal_status \<Rightarrow> store \<Rightarrow> store" where
  "updateGoalStatus i st s =
     (let s1 = (tick s)\<lparr>goals :=
                 map (\<lambda>g. if g_id g = i then g\<lparr>g_status := st, updated_at := now s\<rparr> else g)
                   (goals s)\<rparr>
      in logAudit (''goal.'' @ goal_status_name st) ''goal'' i
           (''Goal #'' @ show_nat i @ '' '' @ arrow @ '' '' @ goal_status_name st) s1)"

definition listTasks :: "nat \<Rightarrow> store \<Rightarrow> task list" where
  "listTasks goalId s = sort_key t_id (filter (\<lambda>t. goal_id t = goalId) (tasks s))"

text \<open>
  \<^verbatim>\<open>completed / tasks.length\<close> is a division of two small counts; the quotient is
  kept exact here. It is at least 1 exactly when the two counts are equal.
\<close>

definition updateGoalProgress :: "nat \<Rightarrow> store \<Rightarrow> store" where
  "updateGoalProgress i s =
     (let ts = listTasks i s in
      if length ts = 0 then s
      else
        let completed = length (filter (\<lambda>t. t_status t = T_completed) ts);
            pr = (of_nat completed / of_nat (length ts) :: rat);
            s1 = (tick s)\<lparr>goals :=
                   map (\<lambda>g. if g_id g = i then g\<lparr>progress := pr, updated_at := now s\<rparr> else g)
                     (goals s)\<rparr>
        in if pr \<ge> 1 then updateGoalStatus i G_completed s1 else s1)"

text \<open>
  \<^verbatim>\<open>DELETE FROM goals WHERE id = ?\<close>. With foreign keys enforced, the schema's
  \<^verbatim>\<open>ON DELETE CASCADE\<close> deletes the goal's tasks, and the statement fails when another
  goal names the deleted one as its parent (that reference has no cascade). The result is
  whether a goal row was deleted.
\<close>

definition removeGoal :: "nat \<Rightarrow> store \<Rightarrow> storage_error + bool \<times> store" where
  "removeGoal i s =
     (let found = (\<exists>g \<in> set (goals s). g_id g = i) in
      if \<not> foreign_keys s then
        Inr (found, s\<lparr>goals := filter (\<lambda>g. g_id g \<noteq> i) (goals s)\<rparr>)
      else if found \<and> (\<exists>g \<in> set (goals s). g_id g \<noteq> i \<and> parent_goal_id g = Some i)
      then Inl Constraint_failed
      else if found then
        Inr (True, s\<lparr>goals := filter (\<lambda>g. g_id g \<noteq> i) (goals s),
                      tasks := filter (\<lambda>t. goal_id t \<noteq> i) (tasks s)\<rparr>)
      else Inr (False, s))"

subsection \<open>Task operations\<close>

record task_options =
  o_t_description :: "string option"
  o_skill :: "string option"
  o_input :: "json option"
  o_dependsOn :: "nat list option"
  o_requiresApproval :: "bool option"
  o_scheduledAt :: "string option"

definition getTask :: "nat \<Rightarrow> store \<Rightarrow> task option" where
  "getTask i s = find (\<lambda>t. t_id t = i) (tasks s)"

definition addTask :: "nat \<Rightarrow> string \<Rightarrow> task_options \<Rightarrow> store \<Rightarrow> storage_error + task \<times> store" where
  "addTask goalId title opts s =
     (if foreign_keys s \<and> getGoal goalId s = None then Inl Constraint_failed
      else
        let i = Suc (task_seq s);
            row = \<lparr>t_id = i, goal_id = goalId, t_title = title,
                   t_description = o_t_description opts, t_status = T_pending,
                   skill = o_skill opts,
                   t_input = (case o_input opts of None \<Rightarrow> J_obj [] | Some j \<Rightarrow> j),
                   t_output = None,
                   depends_on = (case o_dependsOn opts of None \<Rightarrow> [] | Some ds \<Rightarrow> ds),
                   scheduled_at = o_scheduledAt opts, started_at = None, completed_at = None,
                   retry_count = 0, max_retries = 3, error = None,
                   requires_approval = (o_requiresApproval opts = Some True),
                   approved_at = None, t_created_at = now s\<rparr>;
            s1 = (tick s)\<lparr>tasks := tasks s @ [row], task_seq := i\<rparr>;
            s2 = logAudit ''task.created'' ''task'' i title s1
        in Inr (case getTask i s2 of Some t \<Rightarrow> t | None \<Rightarrow> row, s2))"

text \<open>
  The candidates of \<^verbatim>\<open>getNextTask\<close>: the join of tasks and goals, filtered and ordered
  by (goal priority, task id), both ascending.
\<close>

definition candidates :: "store \<Rightarrow> task list" where
  "candidates s =
     map fst (sort_key (\<lambda>(t, g). (priority g, t_id t))
       [(t, g). t \<leftarrow> tasks s, g \<leftarrow> goals s, goal_id t = g_id g,
                t_status t = T_pending \<or> t_status t = T_queued, g_status g = G_active])"

definition dep_completed :: "store \<Rightarrow> nat \<Rightarrow> bool" where
  "dep_completed s d = (case getTask d s of None \<Rightarrow> False | Some dt \<Rightarrow> t_status dt = T_completed)"

fun first_runnable :: "store \<Rightarrow> task list \<Rightarrow> task option" where
  "first_runnable s [] = None"
| "first_runnable s (tk # rest) =
     (if length (depends_on tk) > 0 \<and> \<not> list_all (dep_completed s) (depends_on tk)
      then first_runnable s rest
      else if requires_approval tk \<and> approved_at tk = None then first_runnable s rest
      else Some tk)"

definition getNextTask :: "store \<Rightarrow> task option" where
  "getNextTask s = first_runnable s (candidates s)"

definition startTask :: "nat \<Rightarrow> store \<Rightarrow> store" where
  "startTask i s =
     (let s1 = (tick s)\<lparr>tasks :=
                 map (\<lambda>t. if t_id t = i then t\<lparr>t_status := T_running, started_at := Some (now s)\<rparr>
                           else t) (tasks s)\<rparr>
      in logAudit ''task.started'' ''task'' i (''Task #'' @ show_nat i @ '' started'') s1)"

definition completeTask :: "nat \<Rightarrow> string \<Rightarrow> store \<Rightarrow> store" where
  "completeTask i out s =
     (let s1 = (tick s)\<lparr>tasks :=
                 map (\<lambda>t. if t_id t = i
                           then t\<lparr>t_status := T_completed, t_output := Some out,
                                  completed_at := Some (now s)\<rparr>
                           else t) (tasks s)\<rparr>;
          s2 = logAudit ''task.completed'' ''task'' i (''Task #'' @ show_nat i @ '' completed'') s1
      in case getTask i s2 of None \<Rightarrow> s2 | Some tk \<Rightarrow> updateGoalProgress (goal_id tk) s2)"

definition failTask :: "nat \<Rightarrow> string \<Rightarrow> store \<Rightarrow> store" where
  "failTask i err s =
     (case getTask i s of
        None \<Rightarrow> s
      | Some tk \<Rightarrow>
          if retry_count tk < max_retries tk then
            let s1 = s\<lparr>tasks :=
                       map (\<lambda>t. if t_id t = i
                                 then t\<lparr>t_status := T_pending, retry_count := retry_count t + 1,
                                        error := Some err\<rparr>
                                 else t) (tasks s)\<rparr>
            in logAudit ''task.retry'' ''task'' i
                 (''Task #'' @ show_nat i @ '' retry '' @ show_nat (retry_count tk + 1) @ ''/'' @
                  show_nat (max_retries tk) @ '': '' @ err) s1
          else
            let s1 = (tick s)\<lparr>tasks :=
                       map (\<lambda>t. if t_id t = i
                                 then t\<lparr>t_status := T_failed, error := Some err,
                                        completed_at := Some (now s)\<rparr>
                                 else t) (tasks s)\<rparr>
            in logAudit ''task.failed'' ''task'' i
                 (''Task #'' @ show_nat i @ '' failed: '' @ err) s1)"

definition approveTask :: "nat \<Rightarrow> store \<Rightarrow> bool \<times> store" where
  "approveTask i s =
     (let changed = (\<exists>t \<in> set (tasks s). t_id t = i \<and> requires_approval t);
          s1 = (tick s)\<lparr>tasks :=
                 map (\<lambda>t. if t_id t = i \<and> requires_approval t
                           then t\<lparr>approved_at := Some (now s), t_status := T_queued\<rparr>
                           else t) (tasks s)\<rparr>
      in if changed
         then (True, logAudit ''task.approved'' ''task'' i (''Task #'' @ show_nat i @ '' approved'') s1)
         else (False, s1))"

section \<open>TaskExecutor\<close>

text \<open>
  What \<^verbatim>\<open>executeWithSkill\<close> or \<^verbatim>\<open>executeWithLLM\<close> hands back to \<^verbatim>\<open>execute\<close> is decided
  by the reasoning service and the shell. It is a parameter: a function of the store as
  \<^verbatim>\<open>startTask\<close> left it and of the task, giving either the returned pair or the message
  of the exception thrown. The memory entry saved after a success lives in another table
  and is left out.
\<close>

datatype exec_outcome = Returned bool string | Thrown string

type_synonym runner = "store \<Rightarrow> task \<Rightarrow> exec_outcome"

definition execute :: "runner \<Rightarrow> task \<Rightarrow> store \<Rightarrow> (bool \<times> string) \<times> store" where
  "execute run tk s =
     (let s1 = startTask (t_id tk) s in
      case run s1 tk of
        Returned success out \<Rightarrow>
          if success then ((True, out), completeTask (t_id tk) out s1)
          else ((False, out), failTask (t_id tk) out s1)
      | Thrown msg \<Rightarrow> ((False, msg), failTask (t_id tk) msg s1))"

record task_result =
  taskId :: nat
  r_title :: string
  success :: bool
  r_output :: string

record queue_result =
  processed :: nat
  completed :: nat
  failed :: nat
  results :: "task_result list"

function processQueue_loop :: "runner \<Rightarrow> int \<Rightarrow> queue_result \<Rightarrow> store \<Rightarrow> queue_result \<times> store" where
  "processQueue_loop run maxTasks r s =
     (if int (processed r) < maxTasks then
        (case getNextTask s of
           None \<Rightarrow> (r, s)
         | Some tk \<Rightarrow>
             (case execute run tk s of
                ((ok, out), s') \<Rightarrow>
                  processQueue_loop run maxTasks
                    (r\<lparr>processed := processed r + 1,
                       results := results r @
                         [\<lparr>taskId = t_id tk, r_title = t_title tk, success = ok,
                           r_output = take 500 out\<rparr>],
                       completed := (if ok then completed r + 1 else completed r),
                       failed := (if ok then failed r else failed r + 1)\<rparr>)
                    s'))
      else (r, s))"
  by pat_completeness auto
termination
  by (relation "measure (\<lambda>(run, maxTasks, r, s). nat (maxTasks - int (processed r)))") auto

declare processQueue_loop.simps [simp del]

definition processQueue :: "runner \<Rightarrow> int \<Rightarrow> store \<Rightarrow> queue_result \<times> store" where
  "processQueue run maxTasks s =
     processQueue_loop run maxTasks \<lparr>processed = 0, completed = 0, failed = 0, results = []\<rparr> s"

section \<open>DaemonService\<close>

record daemon_stats =
  tasksProcessed :: nat
  tasksCompleted :: nat
  tasksFailed :: nat

text \<open>
  \<^verbatim>\<open>executeTask\<close> as the daemon has it today: a text built from the title, and no way
  to fail.
\<close>

definition executeTask :: "task \<Rightarrow> string" where
  "executeTask tk =
     (case skill tk of
        None \<Rightarrow> ''Task '' @ [CHR 0x22] @ t_title tk @ [CHR 0x22] @ '' processed''
      | Some sk \<Rightarrow>
          if sk = [] then ''Task '' @ [CHR 0x22] @ t_title tk @ [CHR 0x22] @ '' processed''
          else ''Task '' @ [CHR 0x22] @ t_title tk @ [CHR 0x22] @ '' processed (skill: '' @ sk @ '')'')"

text \<open>
  The \<^verbatim>\<open>try\<close> block of \<^verbatim>\<open>processGoalQueue\<close> awaits \<^verbatim>\<open>this.executeTask(task)\<close>, and its
  \<^verbatim>\<open>catch\<close> is the failure path. The awaited outcome is a parameter, \<open>Inr\<close> the result and
  \<open>Inl\<close> the message of a rejection, so that the failure path is covered; the body above
  is the instance \<open>\<lambda>s tk. Inr (executeTask tk)\<close>. Log lines and the memory entry are outside
  the store.
\<close>

type_synonym executor = "store \<Rightarrow> task \<Rightarrow> string + string"

definition open_tasks :: "store \<Rightarrow> nat" where
  "open_tasks s = length (filter (\<lambda>t. t_status t = T_pending \<or> t_status t = T_queued) (tasks s))"

function processGoalQueue :: "executor \<Rightarrow> daemon_stats \<times> store \<Rightarrow> daemon_stats \<times> store" where
  "processGoalQueue ex (st, s) =
     (case getNextTask s of
        None \<Rightarrow> (st, s)
      | Some tk \<Rightarrow>
          (let st1 = st\<lparr>tasksProcessed := tasksProcessed st + 1\<rparr>;
               s1 = startTask (t_id tk) s
           in case ex s1 tk of
                Inr result \<Rightarrow>
                  processGoalQueue ex
                    (st1\<lparr>tasksCompleted := tasksCompleted st1 + 1\<rparr>,
                     completeTask (t_id tk) result s1)
              | Inl err \<Rightarrow>
                  (st1\<lparr>tasksFailed := tasksFailed st1 + 1\<rparr>, failTask (t_id tk) err s1)))"
  by pat_completeness auto
termination
proof (relation "measure (\<lambda>(ex, st, s). open_tasks s)")
  show "wf (measure (\<lambda>(ex, st, s). open_tasks s))" by simp
next
  fix ex :: executor and st st1 :: daemon_stats and s s1 :: store and tk result
  assume nxt: "getNextTask s = Some tk"
    and s1: "s1 = startTask (t_id tk) s"
  let ?opn = "\<lambda>t. t_status t = T_pending \<or> t_status t = T_queued"
  have fr: "first_runnable s xs = Some x \<Longrightarrow> x \<in> set xs" for xs x
    by (induction xs) (auto split: if_splits)
  from nxt have "tk \<in> set (candidates s)"
    by (simp add: getNextTask_def fr)
  then have mem: "tk \<in> set (tasks s)" and opn: "?opn tk"
    by (auto simp: candidates_def split: if_splits)
  have ugp: "tasks (updateGoalProgress g u) = tasks u" for g u
    by (simp add: updateGoalProgress_def updateGoalStatus_def logAudit_def tick_def Let_def)
  have tasks': "tasks (completeTask (t_id tk) result s1) =
      map (\<lambda>t. if t_id t = t_id tk
                then t\<lparr>t_status := T_completed, t_output := Some result,
                       completed_at := Some (now (startTask (t_id tk) s))\<rparr>
                else t)
        (map (\<lambda>t. if t_id t = t_id tk then t\<lparr>t_status := T_running, started_at := Some (now s)\<rparr>
                   else t) (tasks s))"
    by (simp add: s1 completeTask_def startTask_def logAudit_def tick_def Let_def ugp
        split: option.splits)
  let ?rest = "\<lambda>t. t_id t \<noteq> t_id tk"
  have "filter ?opn
          (map (\<lambda>t. if t_id t = t_id tk
                    then t\<lparr>t_status := T_completed, t_output := Some result,
                           completed_at := Some (now (startTask (t_id tk) s))\<rparr>
                    else t)
            (map (\<lambda>t. if t_id t = t_id tk
                      then t\<lparr>t_status := T_running, started_at := Some (now s)\<rparr>
                      else t) xs)) =
        filter ?rest (filter ?opn xs)" for xs :: "task list"
    by (induction xs) auto
  then have "filter ?opn (tasks (completeTask (t_id tk) result s1)) =
        filter ?rest (filter ?opn (tasks s))"
    unfolding tasks' .
  moreover have "length (filter ?rest (filter ?opn (tasks s))) < length (filter ?opn (tasks s))"
    by (rule length_filter_less[of tk]) (use mem opn in auto)
  ultimately have "length (filter ?opn (tasks (completeTask (t_id tk) result s1))) <
      length (filter ?opn (tasks s))"
    by simp
  then show "((ex, st1\<lparr>tasksCompleted := tasksCompleted st1 + 1\<rparr>,
               completeTask (t_id tk) result s1), ex, st, s)
             \<in> measure (\<lambda>(ex, st, s). open_tasks s)"
    by (simp add: open_tasks_def)
qed

declare processGoalQueue.simps [simp del]

section \<open>GoalDecomposer\<close>

text \<open>
  What \<^verbatim>\<open>parseResponse\<close> builds. The interfaces \<^verbatim>\<open>DecomposedTask\<close> and
  \<^verbatim>\<open>DecompositionResult\<close> declare types that nothing checks at run time: a field holds
  whatever JSON value the reply had there, and \<open>None\<close> is \<^verbatim>\<open>undefined\<close>.
\<close>

record decomposed_task =
  d_title :: json
  d_description :: json
  d_skill :: "json option"
  dependsOnIndex :: "json option"
  requiresApproval :: "json option"
  d_input :: "json option"

record decomposition_result =
  d_tasks :: "decomposed_task list"
  reasoning :: json
  estimatedMinutes :: json

text \<open>
  The built-ins \<^verbatim>\<open>parseResponse\<close> calls: the first match of the code-fence pattern
  (\<open>fence_capture\<close> gives its group 1, if the pattern matches), \<^verbatim>\<open>String.prototype.trim\<close>
  and \<^verbatim>\<open>JSON.parse\<close> (\<open>Inl\<close> the message of its SyntaxError). They are parameters.
\<close>

record js_text =
  fence_capture :: "js_string \<Rightarrow> js_string option"
  trim :: "js_string \<Rightarrow> js_string"
  json_parse :: "js_string \<Rightarrow> js_string + json"

text \<open>
  The database driver, where \<^verbatim>\<open>addTask\<close> hands it the values of a decomposed task.
  \<open>utf8\<close> is the text a TEXT column holds after a string of the program was bound to it.
  A title, description or skill that is not a string is bound as it is: which texts the
  columns \<^verbatim>\<open>title\<close>, \<^verbatim>\<open>description\<close> and \<^verbatim>\<open>skill\<close> of the new row then hold
  (\<open>bind_columns\<close>, \<open>None\<close> when the INSERT throws instead), and which text the column
  \<^verbatim>\<open>details\<close> of the audit event holds for such a title (\<open>bind_details\<close>, \<open>None\<close> when
  the statement of \<^verbatim>\<open>logAudit\<close> throws), is the driver's affair. They are parameters.
\<close>

record driver =
  utf8 :: "js_string \<Rightarrow> string"
  bind_columns :: "json \<Rightarrow> json option \<Rightarrow> json option \<Rightarrow> (string \<times> string option \<times> string option) option"
  bind_details :: "json \<Rightarrow> string option"

text \<open>
  The two services \<^verbatim>\<open>decompose\<close> asks. \<open>getContext\<close> is the outcome of
  \<^verbatim>\<open>this.memoryStore.getContext(goal.title, 300)\<close> for the title given: the text found, or
  \<open>Inl\<close> the message of the exception of the full-text query (a title with a word such as
  NOT, AND or OR is a syntax error of the MATCH expression built from it). An \<open>llm\<close> is
  the outcome of the awaited \<^verbatim>\<open>this.llm.chat(...)\<close> for the goal and the context the two
  prompts are written from: the content of the response, or \<open>Inl\<close> the message of the
  exception.

  \<^verbatim>\<open>MemoryStore.save\<close>, for the entry \<^verbatim>\<open>decomposeAndCreate\<close> saves at its end: the row goes
  to the table \<^verbatim>\<open>memories\<close>, which is not modelled, and the id that table gives it is a
  parameter; the audit event the method writes with it is in the model. The text of the
  entry is the template literal of the source with the title of the goal, the number of
  created tasks, \<^verbatim>\<open>result.reasoning\<close> and \<^verbatim>\<open>result.estimatedMinutes\<close> put into it; how
  it reads in the database is a parameter as well.
\<close>

record memory =
  getContext :: "string \<Rightarrow> js_string + js_string"
  memory_id :: nat
  entry_text :: "string \<Rightarrow> nat \<Rightarrow> json \<Rightarrow> json \<Rightarrow> string"

type_synonym llm = "goal \<Rightarrow> js_string \<Rightarrow> js_string + js_string"

text \<open>
  The exceptions that leave \<^verbatim>\<open>decomposeAndCreate\<close>: of \<^verbatim>\<open>memoryStore.getContext\<close>, of
  \<^verbatim>\<open>llm.chat\<close>, the TypeError of \<^verbatim>\<open>for ... of\<close> over a value that is not iterable,
  those of the two statements of \<^verbatim>\<open>addTask\<close>, and the TypeError of a template literal
  over a value that has no string.
\<close>

datatype decomposer_error =
  Context_failed js_string | Chat_failed js_string | Not_iterable | Bind_failed
  | Storage storage_error | Not_primitive

subsection \<open>Values at run time\<close>

text \<open>
  Property access \<^verbatim>\<open>v.name\<close> on a value that is not null, for the names the decomposer
  reads (no string, number, boolean or array has one of them); \<open>None\<close> is undefined.
\<close>

fun member :: "json \<Rightarrow> js_string \<Rightarrow> json option" where
  "member (J_obj kvs) k = map_of (rev kvs) k"
| "member v k = None"

text \<open>\<^verbatim>\<open>v ?? dflt\<close>, and \<^verbatim>\<open>v ?? undefined\<close>.\<close>

fun coalesce :: "json option \<Rightarrow> json \<Rightarrow> json" where
  "coalesce None dflt = dflt"
| "coalesce (Some J_null) dflt = dflt"
| "coalesce (Some v) dflt = v"

fun non_null :: "json option \<Rightarrow> json option" where
  "non_null (Some J_null) = None"
| "non_null v = v"

text \<open>The test of \<^verbatim>\<open>if (v)\<close> and of \<^verbatim>\<open>v ? 1 : 0\<close>.\<close>

fun truthy :: "json \<Rightarrow> bool" where
  "truthy J_null = False"
| "truthy (J_bool b) = b"
| "truthy (J_num n) = (n \<noteq> 0)"
| "truthy (J_str x) = (x \<noteq> [])"
| "truthy (J_arr xs) = True"
| "truthy (J_obj kvs) = True"

text \<open>
  The values \<^verbatim>\<open>for (const x of v)\<close> runs through: the elements of an array, the code
  points of a string (a surrogate pair is one of them); \<open>None\<close> for a value that is not
  iterable, where the loop throws a TypeError.
\<close>

definition high_surrogate :: "16 word \<Rightarrow> bool" where
  "high_surrogate u \<longleftrightarrow> 0xD800 \<le> u \<and> u \<le> 0xDBFF"

definition low_surrogate :: "16 word \<Rightarrow> bool" where
  "low_surrogate u \<longleftrightarrow> 0xDC00 \<le> u \<and> u \<le> 0xDFFF"

fun code_points :: "js_string \<Rightarrow> js_string list" where
  "code_points (u # v # rest) =
     (if high_surrogate u \<and> low_surrogate v then [u, v] # code_points rest
      else [u] # code_points (v # rest))"
| "code_points [u] = [[u]]"
| "code_points [] = []"

fun iterate :: "json \<Rightarrow> json list option" where
  "iterate (J_arr xs) = Some xs"
| "iterate (J_str x) = Some (map J_str (code_points x))"
| "iterate v = None"

text \<open>
  Whether \<^verbatim>\<open>`${v}`\<close> has a value. A parsed object with a member named \<^verbatim>\<open>toString\<close> has
  none: the member hides \<^verbatim>\<open>Object.prototype.toString\<close> and is not callable, and
  \<^verbatim>\<open>valueOf\<close> gives no primitive, so the conversion throws a TypeError. An array is
  joined from the strings of its items (null gives the empty string), every other object
  reads \<^verbatim>\<open>[object Object]\<close>.
\<close>

fun renders :: "json \<Rightarrow> bool" where
  "renders (J_obj kvs) = (ascii ''toString'' \<notin> set (map fst kvs))"
| "renders (J_arr xs) = list_all renders xs"
| "renders v = True"

subsection \<open>\<^verbatim>\<open>parseResponse\<close> and \<^verbatim>\<open>decompose\<close>\<close>

definition type_error_message :: "string \<Rightarrow> js_string" where
  "type_error_message prop =
     ascii (''Cannot read properties of null (reading '' @ [CHR 0x27] @ prop @ [CHR 0x27] @ '')'')"

text \<open>One item of \<^verbatim>\<open>parsed.tasks.map(...)\<close>, for an item that is not null.\<close>

definition parse_task :: "json \<Rightarrow> decomposed_task" where
  "parse_task t =
     \<lparr>d_title = coalesce (member t (ascii ''title'')) (J_str (ascii ''Unnamed task'')),
      d_description = coalesce (member t (ascii ''description'')) (J_str []),
      d_skill = non_null (member t (ascii ''skill'')),
      dependsOnIndex = Some (coalesce (member t (ascii ''dependsOnIndex'')) (J_arr [])),
      requiresApproval = Some (coalesce (member t (ascii ''requiresApproval'')) (J_bool False)),
      d_input = Some (coalesce (member t (ascii ''input'')) (J_obj []))\<rparr>"

text \<open>The \<^verbatim>\<open>catch\<close> branch; \<^verbatim>\<open>content.slice(0, 200)\<close> is the first 200 code units.\<close>

definition fallback :: "js_string \<Rightarrow> js_string \<Rightarrow> decomposition_result" where
  "fallback content message =
     \<lparr>d_tasks =
        [\<lparr>d_title = J_str (ascii ''Execute goal manually''),
          d_description =
            J_str (ascii ''LLM decomposition failed. Original response: '' @ take 200 content),
          d_skill = None, dependsOnIndex = None, requiresApproval = Some (J_bool True),
          d_input = None\<rparr>],
      reasoning = J_str (ascii ''Decomposition failed: '' @ message),
      estimatedMinutes = J_num 60\<rparr>"

text \<open>
  Inside the \<^verbatim>\<open>try\<close>: a SyntaxError of \<^verbatim>\<open>JSON.parse\<close>, the TypeError of reading a
  property of null (the parsed value itself, or an item of the array) and the Error
  thrown for a \<^verbatim>\<open>tasks\<close> that is no array all end in the \<^verbatim>\<open>catch\<close>. Everything else is
  returned as it was parsed; \<^verbatim>\<open>parseResponse\<close> itself never throws.
\<close>

definition parseResponse :: "js_text \<Rightarrow> js_string \<Rightarrow> decomposition_result" where
  "parseResponse js content =
     (let jsonStr = (case fence_capture js content of Some grp \<Rightarrow> grp | None \<Rightarrow> content) in
      case json_parse js (trim js jsonStr) of
        Inl message \<Rightarrow> fallback content message
      | Inr parsed \<Rightarrow>
          if parsed = J_null then fallback content (type_error_message ''tasks'')
          else
            (case member parsed (ascii ''tasks'') of
               Some (J_arr ts) \<Rightarrow>
                 if J_null \<in> set ts then fallback content (type_error_message ''title'')
                 else
                   \<lparr>d_tasks = map parse_task ts,
                    reasoning =
                      coalesce (member parsed (ascii ''reasoning''))
                        (J_str (ascii ''No reasoning provided'')),
                    estimatedMinutes =
                      coalesce (member parsed (ascii ''estimatedMinutes'')) (J_num 30)\<rparr>
             | _ \<Rightarrow> fallback content (ascii ''Response missing tasks array'')))"

text \<open>
  The context is gathered first, then the chat is awaited; \<^verbatim>\<open>decompose\<close> catches the
  exception of neither.
\<close>

definition decompose ::
  "js_text \<Rightarrow> memory \<Rightarrow> llm \<Rightarrow> goal \<Rightarrow> decomposer_error + decomposition_result" where
  "decompose js mem chat gl =
     (case getContext mem (g_title gl) of
        Inl msg \<Rightarrow> Inl (Context_failed msg)
      | Inr memoryContext \<Rightarrow>
          (case chat gl memoryContext of
             Inl msg \<Rightarrow> Inl (Chat_failed msg)
           | Inr content \<Rightarrow> Inr (parseResponse js content)))"

subsection \<open>\<^verbatim>\<open>decomposeAndCreate\<close>\<close>

text \<open>
  \<^verbatim>\<open>indexToId.get(depIdx)\<close>: the keys of the map are the array positions 0, 1, ..., and
  only a number is equal to one of them.
\<close>

definition index_get :: "(nat \<rightharpoonup> nat) \<Rightarrow> rat \<Rightarrow> nat option" where
  "index_get m d = (if 0 \<le> d \<and> of_int \<lfloor>d\<rfloor> = d then m (nat \<lfloor>d\<rfloor>) else None)"

fun map_get :: "(nat \<rightharpoonup> nat) \<Rightarrow> json \<Rightarrow> nat option" where
  "map_get m (J_num d) = index_get m d"
| "map_get m v = None"

fun resolve_deps :: "(nat \<rightharpoonup> nat) \<Rightarrow> json list \<Rightarrow> nat list" where
  "resolve_deps m [] = []"
| "resolve_deps m (depIdx # rest) =
     (case map_get m depIdx of
        None \<Rightarrow> resolve_deps m rest
      | Some depId \<Rightarrow> depId # resolve_deps m rest)"

text \<open>
  The list \<^verbatim>\<open>dependsOn\<close> of one round of the loop; \<open>None\<close> when \<^verbatim>\<open>dependsOnIndex\<close> is
  truthy and not iterable.
\<close>

definition resolve :: "(nat \<rightharpoonup> nat) \<Rightarrow> decomposed_task \<Rightarrow> nat list option" where
  "resolve indexToId taskDef =
     (case dependsOnIndex taskDef of
        None \<Rightarrow> Some []
      | Some v \<Rightarrow>
          if truthy v then map_option (resolve_deps indexToId) (iterate v) else Some [])"

text \<open>
  An argument bound to a nullable TEXT column by \<^verbatim>\<open>v ?? null\<close>: NULL, or the text of a
  string; the outer \<open>None\<close> is a value of another type.
\<close>

fun text_arg :: "driver \<Rightarrow> json option \<Rightarrow> string option option" where
  "text_arg drv None = Some None"
| "text_arg drv (Some J_null) = Some None"
| "text_arg drv (Some (J_str x)) = Some (Some (utf8 drv x))"
| "text_arg drv (Some v) = None"

text \<open>
  \<^verbatim>\<open>goalStore.addTask\<close> as the loop calls it. With a title, a description and a skill of
  the declared types (\<open>typed_args\<close> gives the three texts) it is \<open>addTask\<close>. Otherwise
  the same statements run on what the driver makes of the values: the INSERT (which checks the foreign key after its
  parameters were bound), then \<^verbatim>\<open>logAudit\<close> with the title as given, then the row is
  read back. An exception of \<^verbatim>\<open>logAudit\<close> leaves the inserted row behind.
\<close>

definition typed_args ::
  "driver \<Rightarrow> json \<Rightarrow> json option \<Rightarrow> json option \<Rightarrow> (string \<times> string option \<times> string option) option" where
  "typed_args drv title description skill_arg =
     (case title of
        J_str t \<Rightarrow>
          (case text_arg drv description of
             None \<Rightarrow> None
           | Some d \<Rightarrow>
               (case text_arg drv skill_arg of
                  None \<Rightarrow> None
                | Some k \<Rightarrow> Some (utf8 drv t, d, k)))
      | _ \<Rightarrow> None)"

definition addTask_unchecked ::
  "driver \<Rightarrow> nat \<Rightarrow> json \<Rightarrow> json option \<Rightarrow> json option \<Rightarrow> json option \<Rightarrow> nat list \<Rightarrow> json
     \<Rightarrow> store \<Rightarrow> (decomposer_error + task) \<times> store" where
  "addTask_unchecked drv goalId title description skill_arg input_arg dependsOn approval s =
     (case typed_args drv title description skill_arg of
        Some (t, d, k) \<Rightarrow>
          (case addTask goalId t
                  \<lparr>o_t_description = d, o_skill = k, o_input = non_null input_arg,
                    o_dependsOn = Some dependsOn, o_requiresApproval = Some (truthy approval),
                    o_scheduledAt = None\<rparr> s of
             Inl e \<Rightarrow> (Inl (Storage e), s)
           | Inr (tk, s') \<Rightarrow> (Inr tk, s'))
      | None \<Rightarrow>
          (case bind_columns drv title description skill_arg of
             None \<Rightarrow> (Inl Bind_failed, s)
           | Some (t, d, k) \<Rightarrow>
               if foreign_keys s \<and> getGoal goalId s = None then (Inl (Storage Constraint_failed), s)
               else
                 let i = Suc (task_seq s);
                     row = \<lparr>t_id = i, goal_id = goalId, t_title = t, t_description = d,
                            t_status = T_pending, skill = k,
                            t_input = (case non_null input_arg of None \<Rightarrow> J_obj [] | Some j \<Rightarrow> j),
                            t_output = None, depends_on = dependsOn, scheduled_at = None,
                            started_at = None, completed_at = None, retry_count = 0,
                            max_retries = 3, error = None, requires_approval = truthy approval,
                            approved_at = None, t_created_at = now s\<rparr>;
                     s1 = (tick s)\<lparr>tasks := tasks s @ [row], task_seq := i\<rparr>
                 in (case bind_details drv title of
                       None \<Rightarrow> (Inl Bind_failed, s1)
                     | Some dt \<Rightarrow>
                         let s2 = logAudit ''task.created'' ''task'' i dt s1
                         in (Inr (case getTask i s2 of Some tk \<Rightarrow> tk | None \<Rightarrow> row), s2))))"

text \<open>
  The loop. An exception ends it, and the tasks created by then stay in the store: the
  store is returned in either case.
\<close>

fun create_loop ::
  "driver \<Rightarrow> nat \<Rightarrow> nat \<Rightarrow> decomposed_task list \<Rightarrow> (nat \<rightharpoonup> nat) \<Rightarrow> task list \<Rightarrow> store
     \<Rightarrow> (decomposer_error + task list) \<times> store" where
  "create_loop drv goalId i [] indexToId createdTasks s = (Inr createdTasks, s)"
| "create_loop drv goalId i (taskDef # rest) indexToId createdTasks s =
     (case resolve indexToId taskDef of
        None \<Rightarrow> (Inl Not_iterable, s)
      | Some dependsOn \<Rightarrow>
          (case addTask_unchecked drv goalId (d_title taskDef) (Some (d_description taskDef))
                  (d_skill taskDef) (d_input taskDef) dependsOn
                  (coalesce (requiresApproval taskDef) (J_bool False)) s of
             (Inl e, s') \<Rightarrow> (Inl e, s')
           | (Inr tk, s') \<Rightarrow>
               create_loop drv goalId (Suc i) rest (indexToId(i \<mapsto> t_id tk))
                 (createdTasks @ [tk]) s'))"

text \<open>
  After the loop the entry is saved. Its text is built first, and building it throws when
  the reasoning or the estimate has no string; the tasks are in the store by then.
\<close>

definition decomposeAndCreate ::
  "js_text \<Rightarrow> driver \<Rightarrow> memory \<Rightarrow> llm \<Rightarrow> goal \<Rightarrow> store
     \<Rightarrow> (decomposer_error + task list) \<times> store" where
  "decomposeAndCreate js drv mem chat gl s =
     (case decompose js mem chat gl of
        Inl e \<Rightarrow> (Inl e, s)
      | Inr result \<Rightarrow>
          (case create_loop drv (g_id gl) 0 (d_tasks result) Map.empty [] s of
             (Inl e, s') \<Rightarrow> (Inl e, s')
           | (Inr createdTasks, s') \<Rightarrow>
               if renders (reasoning result) \<and> renders (estimatedMinutes result)
               then (Inr createdTasks,
                     logAudit ''memory.save'' ''memory'' (memory_id mem)
                       (entry_text mem (g_title gl) (length createdTasks) (reasoning result)
                          (estimatedMinutes result)) s')
               else (Inl Not_primitive, s')))"

section \<open>Vocabulary of the specification\<close>

subsection \<open>Well-formed stores\<close>

text \<open>
  A store is well formed when its primary keys are unique and no id is ahead of its
  AUTOINCREMENT counter. The empty database is, and every operation keeps it so.
\<close>

definition wf_store :: "store \<Rightarrow> bool" where
  "wf_store s \<longleftrightarrow>
     distinct (map g_id (goals s)) \<and> distinct (map t_id (tasks s)) \<and>
     list_all (\<lambda>g. g_id g \<le> goal_seq s) (goals s) \<and>
     list_all (\<lambda>t. t_id t \<le> task_seq s) (tasks s)"

text \<open>The database right after the migration: three empty tables.\<close>

definition empty_store :: "(nat \<Rightarrow> timestamp) \<Rightarrow> bool \<Rightarrow> store" where
  "empty_store clk fk =
     \<lparr>goals = [], tasks = [], audit_events = [], goal_seq = 0, task_seq = 0, audit_seq = 0,
      clock = clk, foreign_keys = fk\<rparr>"

text \<open>
  The public operations of \<^verbatim>\<open>GoalStore\<close> that write, as a datatype, and a run of them. An
  operation that throws leaves the store as it was. The executor, the daemon and the
  decomposer change the tables of goals and tasks through these operations only.
\<close>

datatype store_op =
    Op_addGoal string goal_options
  | Op_updateGoalStatus nat goal_status
  | Op_updateGoalProgress nat
  | Op_removeGoal nat
  | Op_addTask nat string task_options
  | Op_startTask nat
  | Op_completeTask nat string
  | Op_failTask nat string
  | Op_approveTask nat

fun apply_op :: "store_op \<Rightarrow> store \<Rightarrow> store" where
  "apply_op (Op_addGoal title opts) s = (case addGoal title opts s of Inl e \<Rightarrow> s | Inr r \<Rightarrow> snd r)"
| "apply_op (Op_updateGoalStatus i st) s = updateGoalStatus i st s"
| "apply_op (Op_updateGoalProgress i) s = updateGoalProgress i s"
| "apply_op (Op_removeGoal i) s = (case removeGoal i s of Inl e \<Rightarrow> s | Inr r \<Rightarrow> snd r)"
| "apply_op (Op_addTask g title opts) s = (case addTask g title opts s of Inl e \<Rightarrow> s | Inr r \<Rightarrow> snd r)"
| "apply_op (Op_startTask i) s = startTask i s"
| "apply_op (Op_completeTask i out) s = completeTask i out s"
| "apply_op (Op_failTask i err) s = failTask i err s"
| "apply_op (Op_approveTask i) s = snd (approveTask i s)"

definition run_ops :: "store_op list \<Rightarrow> store \<Rightarrow> store" where
  "run_ops ops s = fold apply_op ops s"

subsection \<open>Scheduling\<close>

text \<open>
  Eligibility, as the specification words it, read off the two tables and not through the
  lookups of the program: some goal with the id the task names as its owner is active,
  the task is pending or queued, every id in its \<^verbatim>\<open>depends_on\<close> is the id of a task of
  the store that is completed, and the approval gate is open. \<open>sched_key\<close> is the order
  of the specification: priority of the owning goal, then task id.
\<close>

definition owner_active :: "store \<Rightarrow> task \<Rightarrow> bool" where
  "owner_active s tk \<longleftrightarrow> (\<exists>g \<in> set (goals s). g_id g = goal_id tk \<and> g_status g = G_active)"

definition dep_met :: "store \<Rightarrow> nat \<Rightarrow> bool" where
  "dep_met s d \<longleftrightarrow> (\<exists>dt \<in> set (tasks s). t_id dt = d \<and> t_status dt = T_completed)"

definition eligible :: "store \<Rightarrow> task \<Rightarrow> bool" where
  "eligible s tk \<longleftrightarrow>
     owner_active s tk \<and>
     (t_status tk = T_pending \<or> t_status tk = T_queued) \<and>
     (\<forall>d \<in> set (depends_on tk). dep_met s d) \<and>
     (requires_approval tk = False \<or> approved_at tk \<noteq> None)"

definition owner_priority :: "store \<Rightarrow> task \<Rightarrow> int" where
  "owner_priority s tk =
     (case find (\<lambda>g. g_id g = goal_id tk) (goals s) of None \<Rightarrow> 0 | Some g \<Rightarrow> priority g)"

definition sched_key :: "store \<Rightarrow> task \<Rightarrow> int \<times> nat" where
  "sched_key s tk = (owner_priority s tk, t_id tk)"

text \<open>The two tests of the loop of \<^verbatim>\<open>getNextTask\<close>, and the rows of its join.\<close>

definition runnable :: "store \<Rightarrow> task \<Rightarrow> bool" where
  "runnable s tk \<longleftrightarrow>
     \<not> (length (depends_on tk) > 0 \<and> \<not> list_all (dep_completed s) (depends_on tk)) \<and>
     \<not> (requires_approval tk \<and> approved_at tk = None)"

definition joined :: "store \<Rightarrow> (task \<times> goal) list" where
  "joined s = [(t, g). t \<leftarrow> tasks s, g \<leftarrow> goals s, goal_id t = g_id g,
                t_status t = T_pending \<or> t_status t = T_queued, g_status g = G_active]"

subsection \<open>Progress\<close>

text \<open>
  The two counts of the progress invariant: the tasks of a goal, and those of them that
  are completed.
\<close>

definition total_tasks :: "store \<Rightarrow> nat \<Rightarrow> nat" where
  "total_tasks s gid = length (filter (\<lambda>t. goal_id t = gid) (tasks s))"

definition completed_tasks :: "store \<Rightarrow> nat \<Rightarrow> nat" where
  "completed_tasks s gid =
     length (filter (\<lambda>t. goal_id t = gid \<and> t_status t = T_completed) (tasks s))"

subsection \<open>Retirement\<close>

text \<open>
  A task id is retired when it cannot be handed out again and every row of that id is
  neither pending nor queued and has used up its retries. It is ungated when no row of
  that id requires approval.
\<close>

definition retired :: "nat \<Rightarrow> store \<Rightarrow> bool" where
  "retired i s \<longleftrightarrow>
     i \<le> task_seq s \<and>
     list_all (\<lambda>t. t_id t = i \<longrightarrow>
        t_status t \<noteq> T_pending \<and> t_status t \<noteq> T_queued \<and> max_retries t \<le> retry_count t)
       (tasks s)"

definition ungated :: "nat \<Rightarrow> store \<Rightarrow> bool" where
  "ungated i s \<longleftrightarrow> list_all (\<lambda>t. t_id t = i \<longrightarrow> \<not> requires_approval t) (tasks s)"

subsection \<open>Decomposition\<close>

text \<open>
  The positions a \<^verbatim>\<open>dependsOnIndex\<close> entry can name: the natural numbers. \<open>earlier k idx\<close>
  keeps the entries of \<open>idx\<close> that name a position before \<open>k\<close>, in order.
\<close>

text \<open>
  A task of a decomposition is storable when its title and description are strings and
  its skill is a string or absent, as \<^verbatim>\<open>DecomposedTask\<close> declares them, and its
  \<^verbatim>\<open>dependsOnIndex\<close> can be run through: it is absent, falsy, an array or a string.
\<close>

fun is_text :: "json \<Rightarrow> bool" where
  "is_text (J_str x) = True"
| "is_text v = False"

fun text_or_absent :: "json option \<Rightarrow> bool" where
  "text_or_absent None = True"
| "text_or_absent (Some J_null) = True"
| "text_or_absent (Some v) = is_text v"

fun the_text :: "json \<Rightarrow> js_string" where
  "the_text (J_str x) = x"
| "the_text v = []"

text \<open>The entries of \<^verbatim>\<open>dependsOnIndex\<close> the loop runs through.\<close>

definition deps_of :: "decomposed_task \<Rightarrow> json list" where
  "deps_of taskDef =
     (case dependsOnIndex taskDef of
        None \<Rightarrow> []
      | Some v \<Rightarrow> if truthy v then (case iterate v of None \<Rightarrow> [] | Some xs \<Rightarrow> xs) else [])"

definition iterable_deps :: "decomposed_task \<Rightarrow> bool" where
  "iterable_deps taskDef \<longleftrightarrow>
     (case dependsOnIndex taskDef of
        None \<Rightarrow> True
      | Some v \<Rightarrow> \<not> truthy v \<or> iterate v \<noteq> None)"

definition storable :: "decomposed_task \<Rightarrow> bool" where
  "storable taskDef \<longleftrightarrow>
     is_text (d_title taskDef) \<and> is_text (d_description taskDef) \<and>
     text_or_absent (d_skill taskDef) \<and> iterable_deps taskDef"

text \<open>A decomposition is presentable when its reasoning and its estimate have strings.\<close>

definition presentable :: "decomposition_result \<Rightarrow> bool" where
  "presentable result \<longleftrightarrow> renders (reasoning result) \<and> renders (estimatedMinutes result)"

text \<open>An entry names a position of the array when it is the number of one: 0, 1, 2, ...\<close>

fun is_position :: "json \<Rightarrow> bool" where
  "is_position (J_num d) \<longleftrightarrow> 0 \<le> d \<and> of_int \<lfloor>d\<rfloor> = d"
| "is_position v \<longleftrightarrow> False"

fun position :: "json \<Rightarrow> nat" where
  "position (J_num d) = nat \<lfloor>d\<rfloor>"
| "position v = 0"

definition earlier :: "nat \<Rightarrow> json list \<Rightarrow> json list" where
  "earlier k idx = filter (\<lambda>d. is_position d \<and> position d < k) idx"

text \<open>
  A reply yields no decomposition when the text handed to \<^verbatim>\<open>JSON.parse\<close> does not parse,
  or parses to a value whose \<^verbatim>\<open>tasks\<close> is missing or is not an array.
\<close>

definition json_candidate :: "js_text \<Rightarrow> js_string \<Rightarrow> js_string" where
  "json_candidate js content =
     trim js (case fence_capture js content of Some grp \<Rightarrow> grp | None \<Rightarrow> content)"

fun is_array :: "json option \<Rightarrow> bool" where
  "is_array (Some (J_arr xs)) = True"
| "is_array v = False"

definition no_decomposition :: "js_text \<Rightarrow> js_string \<Rightarrow> bool" where
  "no_decomposition js content \<longleftrightarrow>
     (case json_parse js (json_candidate js content) of
        Inl message \<Rightarrow> True
      | Inr parsed \<Rightarrow> \<not> is_array (member parsed (ascii ''tasks'')))"

section \<open>Scenarios\<close>

text \<open>
  Rows as \<^verbatim>\<open>addGoal\<close> and \<^verbatim>\<open>addTask\<close> insert them, with the schema's defaults, under a
  clock that reads 0; \<open>store_of\<close> is the database holding such rows. The base scenarios are
  built this way, and \<open>scenarios_reachable\<close> below shows that their tables are those the
  operations build from the empty database. The other scenarios are obtained from them by
  the operations themselves.
\<close>

definition fresh_goal :: "nat \<Rightarrow> string \<Rightarrow> int \<Rightarrow> goal" where
  "fresh_goal i title p =
     \<lparr>g_id = i, g_title = title, g_description = None, g_status = G_active, priority = p,
      g_created_at = 0, updated_at = 0, deadline = None, parent_goal_id = None, progress = 0,
      metadata = ''{}''\<rparr>"

definition fresh_task :: "nat \<Rightarrow> nat \<Rightarrow> string \<Rightarrow> task" where
  "fresh_task i g title =
     \<lparr>t_id = i, goal_id = g, t_title = title, t_description = None, t_status = T_pending,
      skill = None, t_input = J_obj [], t_output = None, depends_on = [], scheduled_at = None,
      started_at = None, completed_at = None, retry_count = 0, max_retries = 3, error = None,
      requires_approval = False, approved_at = None, t_created_at = 0\<rparr>"

definition store_of :: "goal list \<Rightarrow> task list \<Rightarrow> store" where
  "store_of gs ts =
     \<lparr>goals = gs, tasks = ts, audit_events = [], goal_seq = length gs, task_seq = length ts,
      audit_seq = 0, clock = (\<lambda>n. 0), foreign_keys = True\<rparr>"

definition with_priority :: "int \<Rightarrow> goal_options" where
  "with_priority p =
     \<lparr>o_description = None, o_priority = Some p, o_deadline = None, o_parentGoalId = None\<rparr>"

definition with_approval :: "bool \<Rightarrow> task_options" where
  "with_approval b =
     \<lparr>o_t_description = None, o_skill = None, o_input = None, o_dependsOn = None,
      o_requiresApproval = Some b, o_scheduledAt = None\<rparr>"

text \<open>Goal P5 of priority 5 and goal P1 of priority 1, one pending task each.\<close>

definition priority_scenario :: store where
  "priority_scenario =
     store_of [fresh_goal 1 ''P5'' 5, fresh_goal 2 ''P1'' 1]
       [fresh_task 1 1 ''for P5'', fresh_task 2 2 ''for P1'']"

definition depending_on :: "nat list \<Rightarrow> task_options" where
  "depending_on ds =
     \<lparr>o_t_description = None, o_skill = None, o_input = None, o_dependsOn = Some ds,
      o_requiresApproval = None, o_scheduledAt = None\<rparr>"

text \<open>
  The same two goals with six tasks. Task 1 (of P5) is completed. Of P1's tasks, task 2
  depends on the pending task 5, task 3 on an id no task has, task 4 awaits approval, and
  task 6 depends on the completed task 1. Task 5 (of P5) has no dependency.
\<close>

definition ready_task :: task where
  "ready_task = (fresh_task 6 2 ''ready'')\<lparr>depends_on := [1]\<rparr>"

definition other_task :: task where
  "other_task = fresh_task 5 1 ''other''"

definition dependency_scenario :: store where
  "dependency_scenario =
     store_of [(fresh_goal 1 ''P5'' 5)\<lparr>progress := 1 / 2\<rparr>, fresh_goal 2 ''P1'' 1]
       [(fresh_task 1 1 ''setup'')\<lparr>t_status := T_completed, started_at := Some 0,
           t_output := Some ''done'', completed_at := Some 0\<rparr>,
        (fresh_task 2 2 ''blocked'')\<lparr>depends_on := [5]\<rparr>,
        (fresh_task 3 2 ''dangling'')\<lparr>depends_on := [99]\<rparr>,
        (fresh_task 4 2 ''gated'')\<lparr>requires_approval := True\<rparr>,
        other_task, ready_task]"

text \<open>
  One goal with one task, built by the operations from the empty database, so that the
  audit table holds the two rows of the creations.
\<close>

definition recorded_scenario :: store where
  "recorded_scenario =
     run_ops [Op_addGoal ''G'' (with_priority 5), Op_addTask 1 ''flaky'' (with_approval False)]
       (empty_store (\<lambda>n. 0) True)"

text \<open>
  One goal with one fresh task; the same after three failures, when the retries are used
  up and the task is pending for its last run.
\<close>

definition retry_scenario :: store where
  "retry_scenario = store_of [fresh_goal 1 ''G'' 5] [fresh_task 1 1 ''flaky'']"

definition exhausted_scenario :: store where
  "exhausted_scenario = fold (failTask 1) [''e1'', ''e2'', ''e3''] retry_scenario"

text \<open>
  One goal with one task that requires approval; the same once approved; and once it has
  then failed four times, which is for good.
\<close>

definition gated_scenario :: store where
  "gated_scenario =
     store_of [fresh_goal 1 ''G'' 5] [(fresh_task 1 1 ''deploy'')\<lparr>requires_approval := True\<rparr>]"

definition approved_scenario :: store where
  "approved_scenario = snd (approveTask 1 gated_scenario)"

definition gated_failed_scenario :: store where
  "gated_failed_scenario = fold (failTask 1) [''e1'', ''e2'', ''e3'', ''e4''] approved_scenario"

text \<open>
  One goal with two fresh tasks; the same after three failures of the first. \<open>first_fails\<close>
  is an environment for the executor in which running task 1 fails and running any other
  task succeeds; \<open>rejects_first\<close> is its counterpart for the daemon, which resolves as the
  body of \<^verbatim>\<open>executeTask\<close> does.
\<close>

definition two_task_scenario :: store where
  "two_task_scenario =
     store_of [fresh_goal 1 ''G'' 5] [fresh_task 1 1 ''first'', fresh_task 2 1 ''second'']"

definition two_task_exhausted_scenario :: store where
  "two_task_exhausted_scenario = fold (failTask 1) [''e1'', ''e2'', ''e3''] two_task_scenario"

definition first_fails :: runner where
  "first_fails s tk = (if t_id tk = 1 then Returned False ''boom'' else Returned True ''done'')"

definition rejects_first :: executor where
  "rejects_first s tk = (if t_id tk = 1 then Inl ''boom'' else Inr (executeTask tk))"

definition no_stats :: daemon_stats where
  "no_stats = \<lparr>tasksProcessed = 0, tasksCompleted = 0, tasksFailed = 0\<rparr>"

text \<open>
  A reply with two tasks, the second depending on position 0. And a reply whose fields
  are not all of the declared types: B lists position 0, the string "0", a later
  position, its own, a fraction and a negative number, and has a string for
  \<^verbatim>\<open>requiresApproval\<close>; C has a string for \<^verbatim>\<open>dependsOnIndex\<close> and 0 for
  \<^verbatim>\<open>requiresApproval\<close>; D lists position 1 and twice position 0.
\<close>

definition plan_text :: string where
  \<open>plan_text =
     ''{"reasoning": "A then B", "estimatedMinutes": 10, "tasks": [{"title": "A", "description": "first"}, {"title": "B", "description": "second", "dependsOnIndex": [0]}]}''\<close>

definition plan_json :: json where
  "plan_json =
     J_obj [(ascii ''reasoning'', J_str (ascii ''A then B'')),
            (ascii ''estimatedMinutes'', J_num 10),
            (ascii ''tasks'',
             J_arr [J_obj [(ascii ''title'', J_str (ascii ''A'')),
                           (ascii ''description'', J_str (ascii ''first''))],
                    J_obj [(ascii ''title'', J_str (ascii ''B'')),
                           (ascii ''description'', J_str (ascii ''second'')),
                           (ascii ''dependsOnIndex'', J_arr [J_num 0])]])]"

definition loose_text :: string where
  \<open>loose_text =
     ''{"estimatedMinutes": "ten", "tasks": [{"title": "A"}, {"title": "B", "dependsOnIndex": [0, "0", 2, 1, 0.5, -1], "requiresApproval": "yes"}, {"title": "C", "dependsOnIndex": "01", "requiresApproval": 0}, {"title": "D", "dependsOnIndex": [1, 0, 0]}]}''\<close>

definition loose_json :: json where
  "loose_json =
     J_obj [(ascii ''estimatedMinutes'', J_str (ascii ''ten'')),
            (ascii ''tasks'',
             J_arr [J_obj [(ascii ''title'', J_str (ascii ''A''))],
                    J_obj [(ascii ''title'', J_str (ascii ''B'')),
                           (ascii ''dependsOnIndex'',
                            J_arr [J_num 0, J_str (ascii ''0''), J_num 2, J_num 1,
                                   J_num (1 / 2), J_num (- 1)]),
                           (ascii ''requiresApproval'', J_str (ascii ''yes''))],
                    J_obj [(ascii ''title'', J_str (ascii ''C'')),
                           (ascii ''dependsOnIndex'', J_str (ascii ''01'')),
                           (ascii ''requiresApproval'', J_num 0)],
                    J_obj [(ascii ''title'', J_str (ascii ''D'')),
                           (ascii ''dependsOnIndex'', J_arr [J_num 1, J_num 0, J_num 0])]])]"

text \<open>A reply whose second task has a number for \<^verbatim>\<open>dependsOnIndex\<close>.\<close>

definition broken_text :: string where
  \<open>broken_text = ''{"tasks": [{"title": "A"}, {"title": "B", "dependsOnIndex": 7}]}''\<close>

definition broken_json :: json where
  "broken_json =
     J_obj [(ascii ''tasks'',
             J_arr [J_obj [(ascii ''title'', J_str (ascii ''A''))],
                    J_obj [(ascii ''title'', J_str (ascii ''B'')),
                           (ascii ''dependsOnIndex'', J_num 7)]])]"

text \<open>A reply whose reasoning is an object with a member named \<^verbatim>\<open>toString\<close>.\<close>

definition opaque_text :: string where
  \<open>opaque_text = ''{"reasoning": {"toString": 1}, "tasks": [{"title": "A"}]}''\<close>

definition opaque_json :: json where
  "opaque_json =
     J_obj [(ascii ''reasoning'', J_obj [(ascii ''toString'', J_num 1)]),
            (ascii ''tasks'', J_arr [J_obj [(ascii ''title'', J_str (ascii ''A''))]])]"

text \<open>
  Built-ins that find no code fence, have nothing to trim and parse these four texts to
  the values they denote.
\<close>

definition plan_js :: js_text where
  "plan_js =
     \<lparr>fence_capture = (\<lambda>content. None), trim = (\<lambda>text. text),
      json_parse = (\<lambda>text. if text = ascii plan_text then Inr plan_json
                             else if text = ascii loose_text then Inr loose_json
                             else if text = ascii broken_text then Inr broken_json
                             else if text = ascii opaque_text then Inr opaque_json
                             else Inl (ascii ''Unexpected token''))\<rparr>"

text \<open>Built-ins for which only the text of the empty object parses.\<close>

definition deaf_js :: js_text where
  "deaf_js =
     \<lparr>fence_capture = (\<lambda>content. None), trim = (\<lambda>text. text),
      json_parse = (\<lambda>text. if text = ascii ''{}'' then Inr (J_obj [])
                             else Inl (ascii ''Unexpected token''))\<rparr>"

text \<open>
  A driver as far as the scenarios go: a string of ASCII code units is stored as the
  same characters, and a value that is not a string is refused.
\<close>

definition ascii_driver :: driver where
  "ascii_driver =
     \<lparr>utf8 = map (\<lambda>u. char_of (unat u)),
      bind_columns = (\<lambda>title description skill_arg. None),
      bind_details = (\<lambda>title. None)\<rparr>"

text \<open>
  A memory without entries, whose table hands out the id 1 next: for a title of plain
  words, as the goals of the scenarios have them, the query finds nothing and the context
  is the empty string. The text of the entry is the template literal for values as the
  scenarios have them: strings of ASCII code units and natural numbers (\<open>plain\<close> is
  their conversion to a string). And the service that answers with a given reply.
\<close>

fun comma_join :: "string list \<Rightarrow> string" where
  "comma_join [] = []"
| "comma_join [x] = x"
| "comma_join (x # y # rest) = x @ '','' @ comma_join (y # rest)"

fun plain :: "json \<Rightarrow> string" where
  "plain J_null = ''null''"
| "plain (J_bool b) = (if b then ''true'' else ''false'')"
| "plain (J_num n) = show_nat (nat \<lfloor>n\<rfloor>)"
| "plain (J_str x) = map (\<lambda>u. char_of (unat u)) x"
| "plain (J_arr xs) = comma_join (map (\<lambda>x. if x = J_null then [] else plain x) xs)"
| "plain (J_obj kvs) = ''[object Object]''"

definition blank_memory :: memory where
  "blank_memory =
     \<lparr>getContext = (\<lambda>title. Inr []), memory_id = 1,
      entry_text = (\<lambda>title n reasoning_arg minutes.
        ''Decomposed goal '' @ [CHR 0x22] @ title @ [CHR 0x22] @ '' into '' @ show_nat n @
        '' tasks. Strategy: '' @ plain reasoning_arg @ ''. Estimated: '' @ plain minutes @
        '' minutes.'')\<rparr>"

definition replying :: "js_string \<Rightarrow> llm" where
  "replying content = (\<lambda>gl memoryContext. Inr content)"

text \<open>A reply of 250 code units that is no JSON.\<close>

definition long_reply :: js_string where
  "long_reply = ascii (replicate 250 CHR ''x'')"

section \<open>Scheduling: \<^verbatim>\<open>getNextTask\<close>\<close>

lemma first_runnable_find: "first_runnable s xs = find (runnable s) xs"
  by (induction xs) (auto simp: runnable_def)

lemma find_distinct_key:
  "distinct (map f xs) \<Longrightarrow> x \<in> set xs \<Longrightarrow> find (\<lambda>y. f y = f x) xs = Some x"
  by (induction xs) (auto simp: rev_image_eqI)

lemma getGoal_member:
  "distinct (map g_id (goals s)) \<Longrightarrow> g \<in> set (goals s) \<Longrightarrow> getGoal (g_id g) s = Some g"
  unfolding getGoal_def by (rule find_distinct_key)

lemma getGoal_SomeD: "getGoal i s = Some g \<Longrightarrow> g \<in> set (goals s) \<and> g_id g = i"
  unfolding getGoal_def by (auto simp: find_Some_iff)

lemma getTask_SomeD: "getTask i s = Some t \<Longrightarrow> t \<in> set (tasks s) \<and> t_id t = i"
  unfolding getTask_def by (auto simp: find_Some_iff)

lemma find_sorted_min:
  "sorted (map k xs) \<Longrightarrow> find P xs = Some x \<Longrightarrow> y \<in> set xs \<Longrightarrow> P y \<Longrightarrow> k x \<le> k y"
  by (induction xs) (auto split: if_splits)

lemma candidates_joined:
  "candidates s = map fst (sort_key (\<lambda>(t, g). (priority g, t_id t)) (joined s))"
  by (simp add: candidates_def joined_def)

lemma joined_set:
  "(t, g) \<in> set (joined s) \<longleftrightarrow>
     t \<in> set (tasks s) \<and> g \<in> set (goals s) \<and> goal_id t = g_id g \<and>
     (t_status t = T_pending \<or> t_status t = T_queued) \<and> g_status g = G_active"
  by (auto simp: joined_def split: if_splits)

lemma joined_key:
  assumes "distinct (map g_id (goals s))" "p \<in> set (joined s)"
  shows "(\<lambda>(t, g). (priority g, t_id t)) p = sched_key s (fst p)"
proof -
  obtain t g where p: "p = (t, g)" by (cases p)
  with assms(2) have "g \<in> set (goals s)" "goal_id t = g_id g" by (auto simp: joined_set)
  with assms(1) have "getGoal (goal_id t) s = Some g" by (simp add: getGoal_member)
  then show ?thesis by (simp add: p sched_key_def owner_priority_def getGoal_def)
qed

lemma candidates_sorted:
  assumes "distinct (map g_id (goals s))"
  shows "sorted (map (sched_key s) (candidates s))"
proof -
  let ?k = "\<lambda>(t, g). (priority g, t_id t)"
  let ?L = "sort_key ?k (joined s)"
  have "map (sched_key s) (candidates s) = map (\<lambda>p. sched_key s (fst p)) ?L"
    by (simp add: candidates_joined comp_def)
  also have "\<dots> = map ?k ?L"
    by (rule map_cong[OF refl]) (use assms joined_key in \<open>auto simp del: split_paired_All\<close>)
  finally show ?thesis by simp
qed

lemma candidates_set:
  "t \<in> set (candidates s) \<longleftrightarrow>
     t \<in> set (tasks s) \<and> owner_active s t \<and> (t_status t = T_pending \<or> t_status t = T_queued)"
proof
  assume "t \<in> set (candidates s)"
  then obtain g where "(t, g) \<in> set (joined s)"
    by (auto simp: candidates_joined)
  then show "t \<in> set (tasks s) \<and> owner_active s t \<and> (t_status t = T_pending \<or> t_status t = T_queued)"
    by (auto simp: joined_set owner_active_def)
next
  assume a: "t \<in> set (tasks s) \<and> owner_active s t \<and> (t_status t = T_pending \<or> t_status t = T_queued)"
  then obtain g where "g \<in> set (goals s)" "g_id g = goal_id t" "g_status g = G_active"
    by (auto simp: owner_active_def)
  with a have "(t, g) \<in> set (joined s)" by (auto simp: joined_set)
  then show "t \<in> set (candidates s)"
    by (force simp: candidates_joined)
qed

lemma getTask_member:
  "distinct (map t_id (tasks s)) \<Longrightarrow> t \<in> set (tasks s) \<Longrightarrow> getTask (t_id t) s = Some t"
  unfolding getTask_def by (rule find_distinct_key)

text \<open>With unique task ids, the lookup of the loop finds a completed task exactly when
  the table holds one of that id.\<close>

lemma dep_completed_iff:
  assumes "distinct (map t_id (tasks s))"
  shows "dep_completed s d = dep_met s d"
proof
  assume "dep_completed s d"
  then obtain dt where "getTask d s = Some dt" "t_status dt = T_completed"
    by (auto simp: dep_completed_def split: option.splits)
  then show "dep_met s d" by (auto simp: dep_met_def dest: getTask_SomeD)
next
  assume "dep_met s d"
  then obtain dt where dt: "dt \<in> set (tasks s)" "t_id dt = d" "t_status dt = T_completed"
    by (auto simp: dep_met_def)
  from getTask_member[OF assms dt(1)] dt(2,3) show "dep_completed s d"
    by (simp add: dep_completed_def)
qed

lemma runnable_iff:
  assumes "distinct (map t_id (tasks s))"
  shows "runnable s tk \<longleftrightarrow>
     (\<forall>d \<in> set (depends_on tk). dep_met s d) \<and>
     (requires_approval tk = False \<or> approved_at tk \<noteq> None)"
  by (cases "depends_on tk")
     (auto simp: runnable_def dep_completed_iff[OF assms] list_all_iff)

lemma eligible_iff:
  assumes "distinct (map t_id (tasks s))" "tk \<in> set (tasks s)"
  shows "eligible s tk \<longleftrightarrow> tk \<in> set (candidates s) \<and> runnable s tk"
  using assms by (auto simp: eligible_def candidates_set runnable_iff)

text \<open>Eligibility in the terms of the program's own lookups, for well-formed stores.\<close>

lemma eligible_lookup:
  assumes "distinct (map t_id (tasks s))"
  shows "eligible s tk \<longleftrightarrow>
     owner_active s tk \<and> (t_status tk = T_pending \<or> t_status tk = T_queued) \<and>
     list_all (dep_completed s) (depends_on tk) \<and>
     (requires_approval tk = False \<or> approved_at tk \<noteq> None)"
  by (simp add: eligible_def dep_completed_iff[OF assms] list_all_iff)

text \<open>
  Claim C1. In a well-formed store, \<^verbatim>\<open>getNextTask()\<close> returns null exactly when no task
  is eligible; otherwise it returns an eligible task of the store that comes strictly
  before every other eligible task in the order (priority of the owning goal, task id).
  Eligible means: the owning goal is active, the status is pending or queued, every id in
  \<^verbatim>\<open>depends_on\<close> is the id of a completed task of the store, and \<^verbatim>\<open>requires_approval\<close> is
  false or \<^verbatim>\<open>approved_at\<close> is set; all of it is read off the tables. So a task with an
  unmet or unknown dependency or a closed approval gate is never returned, and a task
  whose dependencies are met is not passed over.
\<close>

theorem getNextTask_first_eligible:
  assumes "wf_store s"
  shows "case getNextTask s of
           None \<Rightarrow> \<forall>tk \<in> set (tasks s). \<not> eligible s tk
         | Some tk \<Rightarrow>
             tk \<in> set (tasks s) \<and> eligible s tk \<and>
             (\<forall>tk' \<in> set (tasks s). eligible s tk' \<and> tk' \<noteq> tk \<longrightarrow> sched_key s tk < sched_key s tk')"
proof -
  from assms have dg: "distinct (map g_id (goals s))" and dt: "distinct (map t_id (tasks s))"
    by (auto simp: wf_store_def)
  show ?thesis
  proof (cases "getNextTask s")
    case None
    then have "\<forall>x \<in> set (candidates s). \<not> runnable s x"
      by (simp add: getNextTask_def first_runnable_find find_None_iff)
    then show ?thesis using None by (auto simp: eligible_iff[OF dt])
  next
    case (Some tk)
    then have f: "find (runnable s) (candidates s) = Some tk"
      by (simp add: getNextTask_def first_runnable_find)
    then have mem: "tk \<in> set (candidates s)" and run: "runnable s tk"
      by (auto simp: find_Some_iff)
    from mem have tk: "tk \<in> set (tasks s)" by (simp add: candidates_set)
    have "sched_key s tk < sched_key s tk'"
      if "tk' \<in> set (tasks s)" "eligible s tk'" "tk' \<noteq> tk" for tk'
    proof -
      from that have "tk' \<in> set (candidates s)" "runnable s tk'"
        by (auto simp: eligible_iff[OF dt])
      with f have le: "sched_key s tk \<le> sched_key s tk'"
        using find_sorted_min[OF candidates_sorted[OF dg]] by blast
      have "t_id tk \<noteq> t_id tk'"
        using dt tk that(1,3) by (auto simp: distinct_map inj_on_def)
      then have "sched_key s tk \<noteq> sched_key s tk'" by (simp add: sched_key_def)
      with le show ?thesis by simp
    qed
    with Some tk mem run show ?thesis by (auto simp: eligible_iff[OF dt])
  qed
qed

lemmas scenario_defs = store_of_def fresh_goal_def fresh_task_def

text \<open>
  The scenario of the claim: goal P5 of priority 5 and goal P1 of priority 1, one pending
  task each, P5's task inserted first. Both are eligible and P1's task is returned. And
  the scenario with dependencies: tasks 2, 3 and 4 of P1 are passed over (unmet
  dependency, unknown dependency, closed gate), and task 6 of P1, whose dependency is the
  completed task 1, is returned before the eligible task 5 of P5.
\<close>

theorem getNextTask_first_eligible_witness:
  "wf_store priority_scenario \<and>
   getNextTask priority_scenario = Some (fresh_task 2 2 ''for P1'') \<and>
   eligible priority_scenario (fresh_task 1 1 ''for P5'') \<and>
   sched_key priority_scenario (fresh_task 2 2 ''for P1'') <
     sched_key priority_scenario (fresh_task 1 1 ''for P5'') \<and>
   wf_store dependency_scenario \<and>
   map t_id (tasks dependency_scenario) = [1, 2, 3, 4, 5, 6] \<and>
   map (eligible dependency_scenario) (tasks dependency_scenario) =
     [False, False, False, False, True, True] \<and>
   getNextTask dependency_scenario = Some ready_task \<and>
   depends_on ready_task = [1] \<and> dep_met dependency_scenario 1 \<and>
   sched_key dependency_scenario ready_task = (1, 6) \<and>
   sched_key dependency_scenario other_task = (5, 5)"
proof -
  have wf: "wf_store priority_scenario"
    by (simp add: wf_store_def priority_scenario_def scenario_defs)
  have el: "eligible priority_scenario (fresh_task 1 1 ''for P5'')"
    by (simp add: eligible_def owner_active_def priority_scenario_def scenario_defs)
  have el2: "eligible priority_scenario (fresh_task 2 2 ''for P1'')"
    by (simp add: eligible_def owner_active_def priority_scenario_def scenario_defs)
  have k: "sched_key priority_scenario (fresh_task 2 2 ''for P1'') <
     sched_key priority_scenario (fresh_task 1 1 ''for P5'')"
    by (simp add: sched_key_def owner_priority_def priority_scenario_def scenario_defs)
  have mem: "fresh_task 1 1 ''for P5'' \<in> set (tasks priority_scenario)"
     "fresh_task 2 2 ''for P1'' \<in> set (tasks priority_scenario)"
    by (simp_all add: priority_scenario_def store_of_def)
  have ne: "fresh_task 2 2 ''for P1'' \<noteq> fresh_task 1 1 ''for P5''"
    by (simp add: fresh_task_def)
  have two: "tk = fresh_task 1 1 ''for P5'' \<or> tk = fresh_task 2 2 ''for P1''"
    if "tk \<in> set (tasks priority_scenario)" for tk
    using that by (auto simp: priority_scenario_def store_of_def)
  have first: "getNextTask priority_scenario = Some (fresh_task 2 2 ''for P1'')"
  proof (cases "getNextTask priority_scenario")
    case None
    with getNextTask_first_eligible[OF wf] el mem show ?thesis by auto
  next
    case (Some tk)
    with getNextTask_first_eligible[OF wf]
    have tk: "tk \<in> set (tasks priority_scenario)"
      and least: "\<And>tk'. tk' \<in> set (tasks priority_scenario) \<Longrightarrow> eligible priority_scenario tk' \<Longrightarrow>
             tk' \<noteq> tk \<Longrightarrow> sched_key priority_scenario tk < sched_key priority_scenario tk'"
      by auto
    have "tk \<noteq> fresh_task 1 1 ''for P5''"
    proof
      assume "tk = fresh_task 1 1 ''for P5''"
      with least[OF mem(2) el2] ne k show False by (auto simp del: less_prod_simp dest: less_asym)
    qed
    with two[OF tk] Some show ?thesis by simp
  qed
  note dd = dependency_scenario_def ready_task_def other_task_def scenario_defs
  have wfd: "wf_store dependency_scenario"
    by (simp add: wf_store_def dd)
  have ids: "map t_id (tasks dependency_scenario) = [1, 2, 3, 4, 5, 6]"
    by (simp add: dd)
  have els: "map (eligible dependency_scenario) (tasks dependency_scenario) =
     [False, False, False, False, True, True]"
    by (simp add: eligible_def owner_active_def dep_met_def dd)
  have rows: "\<exists>r1 r2 r3 r4. tasks dependency_scenario = [r1, r2, r3, r4, other_task, ready_task]"
    by (simp add: dd)
  have met: "depends_on ready_task = [1]" "dep_met dependency_scenario 1"
    by (simp_all add: dep_met_def dd)
  have keys: "sched_key dependency_scenario ready_task = (1, 6)"
    "sched_key dependency_scenario other_task = (5, 5)"
    by (simp_all add: sched_key_def owner_priority_def dd)
  from rows obtain r1 r2 r3 r4 where
    ts: "tasks dependency_scenario = [r1, r2, r3, r4, other_task, ready_task]" by blast
  from els have elig: "\<not> eligible dependency_scenario r1" "\<not> eligible dependency_scenario r2"
    "\<not> eligible dependency_scenario r3" "\<not> eligible dependency_scenario r4"
    "eligible dependency_scenario other_task" "eligible dependency_scenario ready_task"
    unfolding ts by simp_all
  have neq: "ready_task \<noteq> other_task" by (simp add: dd)
  have second: "getNextTask dependency_scenario = Some ready_task"
  proof (cases "getNextTask dependency_scenario")
    case None
    with getNextTask_first_eligible[OF wfd] elig(6) show ?thesis by (auto simp: ts)
  next
    case (Some tk)
    with getNextTask_first_eligible[OF wfd]
    have tk: "tk \<in> set (tasks dependency_scenario)" and etk: "eligible dependency_scenario tk"
      and least: "\<And>tk'. tk' \<in> set (tasks dependency_scenario) \<Longrightarrow>
             eligible dependency_scenario tk' \<Longrightarrow> tk' \<noteq> tk \<Longrightarrow>
             sched_key dependency_scenario tk < sched_key dependency_scenario tk'"
      by auto
    from tk etk elig(1-4) have "tk = other_task \<or> tk = ready_task"
      unfolding ts by auto
    moreover have "tk \<noteq> other_task"
    proof
      assume "tk = other_task"
      with least[of ready_task] elig(6) neq keys show False by (simp add: ts)
    qed
    ultimately show ?thesis using Some by simp
  qed
  from wf first el k wfd ids els second met keys show ?thesis by simp
qed

section \<open>Retry policy: \<^verbatim>\<open>failTask\<close>\<close>

subsection \<open>What each operation does to the three tables\<close>

lemma logAudit_fields [simp]:
  "tasks (logAudit e k i d s) = tasks s"
  "goals (logAudit e k i d s) = goals s"
  "goal_seq (logAudit e k i d s) = goal_seq s"
  "task_seq (logAudit e k i d s) = task_seq s"
  "foreign_keys (logAudit e k i d s) = foreign_keys s"
  "audit_seq (logAudit e k i d s) = Suc (audit_seq s)"
  by (simp_all add: logAudit_def tick_def)

lemma tick_fields [simp]:
  "tasks (tick s) = tasks s"
  "goals (tick s) = goals s"
  "audit_events (tick s) = audit_events s"
  "goal_seq (tick s) = goal_seq s"
  "task_seq (tick s) = task_seq s"
  "audit_seq (tick s) = audit_seq s"
  "foreign_keys (tick s) = foreign_keys s"
  by (simp_all add: tick_def)

lemma find_update_by_id:
  assumes "\<And>t. t_id (f t) = t_id t"
  shows "find (\<lambda>t. t_id t = j) (map (\<lambda>t. if P t then f t else t) xs) =
         map_option (\<lambda>t. if P t then f t else t) (find (\<lambda>t. t_id t = j) xs)"
  using assms by (induction xs) auto

lemma failTask_tasks:
  "tasks (failTask i err s) =
     (case getTask i s of
        None \<Rightarrow> tasks s
      | Some tk \<Rightarrow>
          if retry_count tk < max_retries tk then
            map (\<lambda>t. if t_id t = i
                      then t\<lparr>t_status := T_pending, retry_count := retry_count t + 1, error := Some err\<rparr>
                      else t) (tasks s)
          else
            map (\<lambda>t. if t_id t = i
                      then t\<lparr>t_status := T_failed, error := Some err, completed_at := Some (now s)\<rparr>
                      else t) (tasks s))"
  by (simp add: failTask_def Let_def split: option.splits)

lemma failTask_goals [simp]: "goals (failTask i err s) = goals s"
  by (simp add: failTask_def Let_def split: option.splits)

text \<open>
  Claim C3. For an existing task, \<^verbatim>\<open>failTask(id, error)\<close> with
  \<^verbatim>\<open>retry_count < max_retries\<close> sets the status to pending, adds one to \<^verbatim>\<open>retry_count\<close>,
  stores the error text and appends one audit row \<^verbatim>\<open>task.retry\<close>; otherwise it sets the
  status to failed, sets \<^verbatim>\<open>completed_at\<close>, stores the error text and appends one audit
  row \<^verbatim>\<open>task.failed\<close>. The row read back differs from the old one in these fields only,
  and no other task and no goal changes.
\<close>

theorem failTask_retry_or_fail:
  assumes "getTask i s = Some tk"
  shows "(if retry_count tk < max_retries tk
          then getTask i (failTask i err s) =
                 Some (tk\<lparr>t_status := T_pending, retry_count := retry_count tk + 1, error := Some err\<rparr>) \<and>
               (\<exists>row. audit_events (failTask i err s) = audit_events s @ [row] \<and>
                  event_type row = ''task.retry'' \<and> entity_type row = Some ''task'' \<and>
                  entity_id row = Some i)
          else getTask i (failTask i err s) =
                 Some (tk\<lparr>t_status := T_failed, error := Some err, completed_at := Some (now s)\<rparr>) \<and>
               (\<exists>row. audit_events (failTask i err s) = audit_events s @ [row] \<and>
                  event_type row = ''task.failed'' \<and> entity_type row = Some ''task'' \<and>
                  entity_id row = Some i)) \<and>
         (\<forall>j. j \<noteq> i \<longrightarrow> getTask j (failTask i err s) = getTask j s) \<and>
         goals (failTask i err s) = goals s"
proof -
  from assms have f: "find (\<lambda>t. t_id t = i) (tasks s) = Some tk" and id: "t_id tk = i"
    by (auto simp: getTask_def find_Some_iff)
  have other: "getTask j (failTask i err s) = getTask j s" if "j \<noteq> i" for j
  proof -
    have "find (\<lambda>t. t_id t = j) (map (\<lambda>t. if t_id t = i then g t else t) xs) =
          find (\<lambda>t. t_id t = j) xs" if "\<And>t. t_id (g t) = t_id t" for g and xs :: "task list"
      using that \<open>j \<noteq> i\<close> by (induction xs) auto
    then show ?thesis
      using assms by (simp add: getTask_def failTask_tasks)
  qed
  show ?thesis
  proof (cases "retry_count tk < max_retries tk")
    case True
    have "getTask i (failTask i err s) =
          Some (tk\<lparr>t_status := T_pending, retry_count := retry_count tk + 1, error := Some err\<rparr>)"
      using assms True f id
      by (simp add: getTask_def failTask_tasks find_update_by_id)
    moreover have "\<exists>row. audit_events (failTask i err s) = audit_events s @ [row] \<and>
                  event_type row = ''task.retry'' \<and> entity_type row = Some ''task'' \<and>
                  entity_id row = Some i"
      using assms True by (simp add: failTask_def Let_def logAudit_def)
    ultimately show ?thesis using True other by simp
  next
    case False
    have "getTask i (failTask i err s) =
          Some (tk\<lparr>t_status := T_failed, error := Some err, completed_at := Some (now s)\<rparr>)"
      using assms False f id
      by (simp add: getTask_def failTask_tasks find_update_by_id)
    moreover have "\<exists>row. audit_events (failTask i err s) = audit_events s @ [row] \<and>
                  event_type row = ''task.failed'' \<and> entity_type row = Some ''task'' \<and>
                  entity_id row = Some i"
      using assms False by (simp add: failTask_def Let_def logAudit_def)
    ultimately show ?thesis using False other by simp
  qed
qed

theorem failTask_retry_or_fail_witness:
  "getTask 1 retry_scenario = Some (fresh_task 1 1 ''flaky'') \<and>
   getTask 1 (failTask 1 ''boom'' retry_scenario) =
     Some ((fresh_task 1 1 ''flaky'')\<lparr>t_status := T_pending, retry_count := 1, error := Some ''boom''\<rparr>) \<and>
   getTask 1 exhausted_scenario =
     Some ((fresh_task 1 1 ''flaky'')\<lparr>retry_count := 3, error := Some ''e3''\<rparr>) \<and>
   getTask 1 (failTask 1 ''boom'' exhausted_scenario) =
     Some ((fresh_task 1 1 ''flaky'')\<lparr>retry_count := 3, t_status := T_failed, error := Some ''boom'',
        completed_at := Some 0\<rparr>)"
proof -
  have a: "getTask 1 retry_scenario = Some (fresh_task 1 1 ''flaky'')"
    by (simp add: getTask_def retry_scenario_def store_of_def fresh_task_def)
  have b: "getTask 1 exhausted_scenario =
      Some ((fresh_task 1 1 ''flaky'')\<lparr>retry_count := 3, error := Some ''e3''\<rparr>)"
    by (simp add: getTask_def failTask_def Let_def exhausted_scenario_def retry_scenario_def
        store_of_def fresh_task_def)
  have n: "now exhausted_scenario = 0"
    by (simp add: now_def failTask_def getTask_def logAudit_def tick_def Let_def
        exhausted_scenario_def retry_scenario_def store_of_def fresh_task_def)
  from failTask_retry_or_fail[OF a, of "''boom''"] failTask_retry_or_fail[OF b, of "''boom''"] a b n
  show ?thesis
    by (simp add: fresh_task_def)
qed

section \<open>Approval: \<^verbatim>\<open>approveTask\<close>\<close>

lemma approveTask_tasks:
  "tasks (snd (approveTask i s)) =
     map (\<lambda>t. if t_id t = i \<and> requires_approval t
               then t\<lparr>approved_at := Some (now s), t_status := T_queued\<rparr> else t) (tasks s)"
  by (simp add: approveTask_def Let_def)

lemma approveTask_changed:
  "fst (approveTask i s) = (\<exists>t \<in> set (tasks s). t_id t = i \<and> requires_approval t)"
  by (simp add: approveTask_def Let_def)

lemma approveTask_goals [simp]: "goals (snd (approveTask i s)) = goals s"
  by (simp add: approveTask_def Let_def)

text \<open>
  Claim C10. In a well-formed store, \<^verbatim>\<open>approveTask(id)\<close> returns true exactly when the
  task exists and has \<^verbatim>\<open>requires_approval\<close> set. Then, whatever the status of the task
  was, the row read back is the old one with \<^verbatim>\<open>approved_at\<close> set and the status queued: it
  is eligible again as soon as its goal is active and its dependencies are completed.
\<close>

theorem approveTask_requeues_any_status:
  assumes "wf_store s"
  shows "fst (approveTask i s) =
           (case getTask i s of None \<Rightarrow> False | Some tk \<Rightarrow> requires_approval tk) \<and>
         (\<forall>tk. getTask i s = Some tk \<and> requires_approval tk \<longrightarrow>
            getTask i (snd (approveTask i s)) =
              Some (tk\<lparr>approved_at := Some (now s), t_status := T_queued\<rparr>) \<and>
            eligible (snd (approveTask i s)) (tk\<lparr>approved_at := Some (now s), t_status := T_queued\<rparr>) =
              (owner_active s tk \<and>
               list_all (dep_completed (snd (approveTask i s))) (depends_on tk)))"
proof -
  from assms have dt: "distinct (map t_id (tasks s))" by (simp add: wf_store_def)
  have ret: "fst (approveTask i s) =
      (case getTask i s of None \<Rightarrow> False | Some tk \<Rightarrow> requires_approval tk)"
  proof (cases "getTask i s")
    case None
    then have "\<forall>t \<in> set (tasks s). t_id t \<noteq> i"
      by (simp add: getTask_def find_None_iff)
    with None show ?thesis by (simp add: approveTask_changed)
  next
    case (Some tk)
    then have tk: "tk \<in> set (tasks s)" "t_id tk = i" by (auto dest: getTask_SomeD)
    have "requires_approval t = requires_approval tk" if "t \<in> set (tasks s)" "t_id t = i" for t
    proof -
      from getTask_member[OF dt that(1)] that(2) Some have "Some t = Some tk" by simp
      then show ?thesis by simp
    qed
    then have "(\<exists>t \<in> set (tasks s). t_id t = i \<and> requires_approval t) = requires_approval tk"
      using tk by blast
    with Some show ?thesis by (simp add: approveTask_changed)
  qed
  have upd: "getTask i (snd (approveTask i s)) =
              Some (tk\<lparr>approved_at := Some (now s), t_status := T_queued\<rparr>) \<and>
            eligible (snd (approveTask i s)) (tk\<lparr>approved_at := Some (now s), t_status := T_queued\<rparr>) =
              (owner_active s tk \<and>
               list_all (dep_completed (snd (approveTask i s))) (depends_on tk))"
    if "getTask i s = Some tk" "requires_approval tk" for tk
  proof -
    from that(1) have f: "find (\<lambda>t. t_id t = i) (tasks s) = Some tk"
      by (simp add: getTask_def)
    have "find (\<lambda>t. t_id t = i)
            (map (\<lambda>t. if t_id t = i \<and> requires_approval t
                       then t\<lparr>approved_at := Some (now s), t_status := T_queued\<rparr> else t) (tasks s)) =
          map_option (\<lambda>t. if t_id t = i \<and> requires_approval t
                       then t\<lparr>approved_at := Some (now s), t_status := T_queued\<rparr> else t)
            (find (\<lambda>t. t_id t = i) (tasks s))"
      by (rule find_update_by_id) simp
    with f that have g: "getTask i (snd (approveTask i s)) =
        Some (tk\<lparr>approved_at := Some (now s), t_status := T_queued\<rparr>)"
      using getTask_SomeD[OF that(1)] by (simp add: getTask_def approveTask_tasks)
    have "owner_active (snd (approveTask i s)) (tk\<lparr>approved_at := Some (now s), t_status := T_queued\<rparr>) =
          owner_active s tk"
      by (simp add: owner_active_def)
    moreover have "map t_id (tasks (snd (approveTask i s))) = map t_id (tasks s)"
      by (simp add: approveTask_tasks comp_def if_distrib[of t_id] cong: map_cong)
    with dt have "distinct (map t_id (tasks (snd (approveTask i s))))" by simp
    moreover note this
    ultimately have "eligible (snd (approveTask i s)) (tk\<lparr>approved_at := Some (now s), t_status := T_queued\<rparr>) =
              (owner_active s tk \<and>
               list_all (dep_completed (snd (approveTask i s))) (depends_on tk))"
      by (simp add: eligible_lookup)
    with g show ?thesis by simp
  qed
  from ret upd show ?thesis by blast
qed

text \<open>
  A task that requires approval, was approved and has then failed for good (three retries
  used up): not schedulable as it stands, and after \<^verbatim>\<open>approveTask\<close> it is queued and
  \<^verbatim>\<open>getNextTask\<close> returns it.
\<close>

theorem approveTask_requeues_any_status_witness:
  "wf_store gated_failed_scenario \<and>
   map_option t_status (getTask 1 gated_failed_scenario) = Some T_failed \<and>
   map_option requires_approval (getTask 1 gated_failed_scenario) = Some True \<and>
   getNextTask gated_failed_scenario = None \<and>
   fst (approveTask 1 gated_failed_scenario) = True \<and>
   map_option t_status (getTask 1 (snd (approveTask 1 gated_failed_scenario))) = Some T_queued \<and>
   map_option t_id (getNextTask (snd (approveTask 1 gated_failed_scenario))) = Some 1"
proof -
  note defs = gated_failed_scenario_def approved_scenario_def gated_scenario_def scenario_defs
    failTask_def approveTask_def getTask_def logAudit_def tick_def now_def Let_def
  have wf: "wf_store gated_failed_scenario"
    by (simp add: wf_store_def defs)
  have g: "getTask 1 gated_failed_scenario =
      Some ((fresh_task 1 1 ''deploy'')\<lparr>requires_approval := True, approved_at := Some 0,
          t_status := T_failed, retry_count := 3, error := Some ''e4'', completed_at := Some 0\<rparr>)"
    by (simp add: defs)
  have n0: "getNextTask gated_failed_scenario = None"
    by (simp add: getNextTask_def candidates_def defs)
  have n1: "map_option t_id (getNextTask (snd (approveTask 1 gated_failed_scenario))) = Some 1"
    by (simp add: getNextTask_def candidates_def defs)
  from approveTask_requeues_any_status[OF wf, of 1] g n0 n1 wf show ?thesis
    by (simp add: fresh_task_def)
qed

section \<open>Progress: \<^verbatim>\<open>completeTask\<close> and \<^verbatim>\<open>updateGoalProgress\<close>\<close>

lemma find_update_goal:
  assumes "\<And>g. g_id (f g) = g_id g"
  shows "find (\<lambda>g. g_id g = j) (map (\<lambda>g. if P g then f g else g) xs) =
         map_option (\<lambda>g. if P g then f g else g) (find (\<lambda>g. g_id g = j) xs)"
  using assms by (induction xs) auto

lemma updateGoalStatus_fields [simp]:
  "tasks (updateGoalStatus i st s) = tasks s"
  "goal_seq (updateGoalStatus i st s) = goal_seq s"
  "task_seq (updateGoalStatus i st s) = task_seq s"
  "foreign_keys (updateGoalStatus i st s) = foreign_keys s"
  by (simp_all add: updateGoalStatus_def Let_def)

lemma updateGoalStatus_goals:
  "goals (updateGoalStatus i st s) =
     map (\<lambda>g. if g_id g = i then g\<lparr>g_status := st, updated_at := now s\<rparr> else g) (goals s)"
  by (simp add: updateGoalStatus_def Let_def)

lemma updateGoalProgress_fields [simp]:
  "tasks (updateGoalProgress i s) = tasks s"
  "goal_seq (updateGoalProgress i s) = goal_seq s"
  "task_seq (updateGoalProgress i s) = task_seq s"
  "foreign_keys (updateGoalProgress i s) = foreign_keys s"
  by (simp_all add: updateGoalProgress_def Let_def)

lemma listTasks_counts:
  "length (listTasks gid s) = total_tasks s gid"
  "length (filter (\<lambda>t. t_status t = T_completed) (listTasks gid s)) = completed_tasks s gid"
  by (simp_all add: listTasks_def total_tasks_def completed_tasks_def filter_sort)

lemma completed_le_total: "completed_tasks s gid \<le> total_tasks s gid"
proof -
  have "length (filter (\<lambda>t. P t \<and> Q t) xs) \<le> length (filter P xs)"
    for P Q and xs :: "task list"
    by (induction xs) auto
  then show ?thesis by (simp add: completed_tasks_def total_tasks_def)
qed

lemma ratio_ge_one:
  assumes "c \<le> n" "0 < n"
  shows "((of_nat c / of_nat n :: rat) \<ge> 1) = (c = n)"
    and "((of_nat c / of_nat n :: rat) = 1) = (c = n)"
  using assms by (auto simp: le_divide_eq)

lemma getGoal_goals_update:
  assumes "\<And>g. g_id (f g) = g_id g"
  shows "getGoal j (u\<lparr>goals := map (\<lambda>g. if g_id g = i then f g else g) xs\<rparr>) =
         map_option (\<lambda>g. if g_id g = i then f g else g) (find (\<lambda>g. g_id g = j) xs)"
  using assms by (simp add: getGoal_def find_update_goal)

lemma getGoal_updateGoalStatus:
  "getGoal j (updateGoalStatus i st s) =
     map_option (\<lambda>g. if g_id g = i then g\<lparr>g_status := st, updated_at := now s\<rparr> else g)
       (getGoal j s)"
  by (simp add: getGoal_def updateGoalStatus_goals find_update_goal)

lemma updateGoalProgress_getGoal:
  assumes "0 < total_tasks s gid"
  shows "getGoal gid (updateGoalProgress gid s) =
     map_option
       (\<lambda>g. if completed_tasks s gid = total_tasks s gid
            then g\<lparr>progress := of_nat (completed_tasks s gid) / of_nat (total_tasks s gid),
                   g_status := G_completed, updated_at := clock s (Suc 0)\<rparr>
            else g\<lparr>progress := of_nat (completed_tasks s gid) / of_nat (total_tasks s gid),
                   updated_at := now s\<rparr>)
       (getGoal gid s)"
proof -
  let ?pr = "of_nat (completed_tasks s gid) / of_nat (total_tasks s gid) :: rat"
  let ?s1 = "(tick s)\<lparr>goals :=
      map (\<lambda>g. if g_id g = gid then g\<lparr>progress := ?pr, updated_at := now s\<rparr> else g) (goals s)\<rparr>"
  have ge: "(?pr \<ge> 1) = (completed_tasks s gid = total_tasks s gid)"
    by (rule ratio_ge_one(1)[OF completed_le_total assms])
  have unfold: "updateGoalProgress gid s =
      (if completed_tasks s gid = total_tasks s gid then updateGoalStatus gid G_completed ?s1 else ?s1)"
  proof (cases "completed_tasks s gid = total_tasks s gid")
    case True
    with ge have "?pr \<ge> 1" by simp
    with True assms show ?thesis
      unfolding updateGoalProgress_def Let_def listTasks_counts by simp
  next
    case False
    with ge have "\<not> ?pr \<ge> 1" by simp
    with False assms show ?thesis
      unfolding updateGoalProgress_def Let_def listTasks_counts by simp
  qed
  have g1: "getGoal gid ?s1 =
      map_option (\<lambda>g. if g_id g = gid then g\<lparr>progress := ?pr, updated_at := now s\<rparr> else g)
        (getGoal gid s)"
    by (subst getGoal_goals_update) (simp_all add: getGoal_def)
  have n1: "now ?s1 = clock s (Suc 0)" by (simp add: now_def tick_def)
  show ?thesis
  proof (cases "getGoal gid s")
    case None
    then show ?thesis by (simp add: unfold getGoal_updateGoalStatus g1)
  next
    case (Some g)
    then have "g_id g = gid" by (auto dest: getGoal_SomeD)
    with Some show ?thesis by (simp add: unfold getGoal_updateGoalStatus g1 n1)
  qed
qed

lemma total_tasks_update:
  assumes "\<And>t. goal_id (f t) = goal_id t"
  shows "length (filter (\<lambda>t. goal_id t = gid) (map (\<lambda>t. if P t then f t else t) xs)) =
         length (filter (\<lambda>t. goal_id t = gid) xs)"
  using assms by (induction xs) auto

lemma completeTask_tasks:
  "tasks (completeTask i out s) =
     map (\<lambda>t. if t_id t = i
               then t\<lparr>t_status := T_completed, t_output := Some out, completed_at := Some (now s)\<rparr>
               else t) (tasks s)"
  by (simp add: completeTask_def Let_def split: option.splits)

text \<open>
  Claim C2. After \<^verbatim>\<open>completeTask\<close> on an existing task of an existing goal, the goal has at
  least one task, its progress is the number of its completed tasks divided by the number
  of its tasks (both counted in the store the call leaves), and its status is completed
  if that quotient is 1 and is the status it had before otherwise.
\<close>

theorem completeTask_progress_and_status:
  assumes "getTask i s = Some tk" and "getGoal (goal_id tk) s = Some g"
  shows "\<exists>g'. getGoal (goal_id tk) (completeTask i out s) = Some g' \<and>
           0 < total_tasks (completeTask i out s) (goal_id tk) \<and>
           progress g' = of_nat (completed_tasks (completeTask i out s) (goal_id tk)) /
                         of_nat (total_tasks (completeTask i out s) (goal_id tk)) \<and>
           (progress g' = 1) =
             (completed_tasks (completeTask i out s) (goal_id tk) =
              total_tasks (completeTask i out s) (goal_id tk)) \<and>
           g_status g' = (if progress g' = 1 then G_completed else g_status g)"
proof -
  let ?upd = "\<lambda>t. if t_id t = i
      then t\<lparr>t_status := T_completed, t_output := Some out, completed_at := Some (now s)\<rparr> else t"
  let ?s2 = "logAudit ''task.completed'' ''task'' i (''Task #'' @ show_nat i @ '' completed'')
               ((tick s)\<lparr>tasks := map ?upd (tasks s)\<rparr>)"
  let ?gid = "goal_id tk"
  let ?s' = "completeTask i out s"
  from assms(1) have tk: "tk \<in> set (tasks s)" "t_id tk = i" by (auto dest: getTask_SomeD)
  have g2: "getTask i ?s2 = Some (?upd tk)"
    using assms(1) by (simp add: getTask_def find_update_by_id)
  then have s': "?s' = updateGoalProgress ?gid ?s2"
    using tk by (simp add: completeTask_def Let_def)
  have tasks2: "tasks ?s2 = map ?upd (tasks s)" by simp
  have "total_tasks ?s2 ?gid = total_tasks s ?gid"
    unfolding total_tasks_def tasks2 by (rule total_tasks_update) simp
  moreover have "0 < total_tasks s ?gid"
    unfolding total_tasks_def using tk(1) by (auto simp: filter_empty_conv)
  ultimately have pos: "0 < total_tasks ?s2 ?gid" by simp
  have cnt: "total_tasks ?s' ?gid = total_tasks ?s2 ?gid"
            "completed_tasks ?s' ?gid = completed_tasks ?s2 ?gid"
    by (simp_all add: s' total_tasks_def completed_tasks_def)
  have gg: "getGoal ?gid ?s2 = Some g"
    using assms(2) by (simp add: getGoal_def)
  let ?pr = "of_nat (completed_tasks ?s2 ?gid) / of_nat (total_tasks ?s2 ?gid) :: rat"
  define g' where "g' =
     (if completed_tasks ?s2 ?gid = total_tasks ?s2 ?gid
      then g\<lparr>progress := ?pr, g_status := G_completed, updated_at := clock ?s2 (Suc 0)\<rparr>
      else g\<lparr>progress := ?pr, updated_at := now ?s2\<rparr>)"
  have g': "getGoal ?gid ?s' = Some g'"
    unfolding s' updateGoalProgress_getGoal[OF pos] gg g'_def by simp
  have pr: "progress g' = ?pr"
    and st: "g_status g' = (if completed_tasks ?s2 ?gid = total_tasks ?s2 ?gid then G_completed else g_status g)"
    by (simp_all add: g'_def)
  have one: "(progress g' = 1) = (completed_tasks ?s2 ?gid = total_tasks ?s2 ?gid)"
    unfolding pr using ratio_ge_one(2)[OF completed_le_total pos] .
  show ?thesis
    using g' pr st one pos unfolding cnt by auto
qed

theorem completeTask_progress_and_status_witness:
  "getTask 1 two_task_scenario = Some (fresh_task 1 1 ''first'') \<and>
   getGoal 1 two_task_scenario = Some (fresh_goal 1 ''G'' 5) \<and>
   map_option progress (getGoal 1 (completeTask 1 ''ok'' two_task_scenario)) = Some (1 / 2) \<and>
   map_option g_status (getGoal 1 (completeTask 1 ''ok'' two_task_scenario)) = Some G_active \<and>
   map_option progress
     (getGoal 1 (completeTask 2 ''ok'' (completeTask 1 ''ok'' two_task_scenario))) = Some 1 \<and>
   map_option g_status
     (getGoal 1 (completeTask 2 ''ok'' (completeTask 1 ''ok'' two_task_scenario))) = Some G_completed"
proof -
  have t1: "getTask 1 two_task_scenario = Some (fresh_task 1 1 ''first'')"
    by (simp add: getTask_def two_task_scenario_def scenario_defs)
  have g1: "getGoal (goal_id (fresh_task 1 1 ''first'')) two_task_scenario = Some (fresh_goal 1 ''G'' 5)"
    by (simp add: getGoal_def two_task_scenario_def scenario_defs)
  have c1: "completed_tasks (completeTask 1 ''ok'' two_task_scenario) 1 = 1"
           "total_tasks (completeTask 1 ''ok'' two_task_scenario) 1 = 2"
    by (simp_all add: completed_tasks_def total_tasks_def completeTask_tasks two_task_scenario_def
        scenario_defs)
  have gid: "goal_id (fresh_task 1 1 ''first'') = 1" by (simp add: fresh_task_def)
  from completeTask_progress_and_status[OF t1 g1, of "''ok''"]
  have first: "map_option progress (getGoal 1 (completeTask 1 ''ok'' two_task_scenario)) = Some (1 / 2) \<and>
     map_option g_status (getGoal 1 (completeTask 1 ''ok'' two_task_scenario)) = Some G_active"
    unfolding gid c1 by (auto simp: fresh_goal_def)
  have second: "map_option progress
     (getGoal 1 (completeTask 2 ''ok'' (completeTask 1 ''ok'' two_task_scenario))) = Some 1 \<and>
   map_option g_status
     (getGoal 1 (completeTask 2 ''ok'' (completeTask 1 ''ok'' two_task_scenario))) = Some G_completed"
    by (simp add: completeTask_def updateGoalProgress_def updateGoalStatus_def listTasks_def
        getTask_def getGoal_def Let_def two_task_scenario_def scenario_defs)
  from t1 g1 first second show ?thesis by (simp add: fresh_task_def)
qed

section \<open>The audit trail\<close>

lemma audit_logAudit:
  "audit_events (logAudit e k i d s) =
     audit_events s @
       [\<lparr>a_id = Suc (audit_seq s), event_type = e, entity_type = Some k, entity_id = Some i,
         action = e, details = Some d, a_created_at = now s\<rparr>]"
  by (simp add: logAudit_def)

text \<open>
  The audit table is append-only: every operation leaves the rows it finds in place and
  at most adds rows behind them. All operations but \<^verbatim>\<open>removeGoal\<close> and a bare
  \<^verbatim>\<open>updateGoalProgress\<close> add at least one row whenever they change a goal or a task.
\<close>

lemma audit_append_only: "\<exists>rows. audit_events (apply_op op s) = audit_events s @ rows"
proof (cases op)
  case (Op_addGoal title opts)
  then show ?thesis
    by (auto simp: audit_logAudit addGoal_def Let_def split: sum.splits if_splits)
next
  case (Op_updateGoalStatus i st)
  then show ?thesis by (simp add: audit_logAudit updateGoalStatus_def Let_def)
next
  case (Op_updateGoalProgress i)
  then show ?thesis
    by (simp add: audit_logAudit updateGoalProgress_def updateGoalStatus_def Let_def)
next
  case (Op_removeGoal i)
  then show ?thesis
    by (auto simp: removeGoal_def Let_def split: sum.splits if_splits)
next
  case (Op_addTask g title opts)
  then show ?thesis
    by (auto simp: audit_logAudit addTask_def Let_def split: sum.splits if_splits)
next
  case (Op_startTask i)
  then show ?thesis by (simp add: audit_logAudit startTask_def Let_def)
next
  case (Op_completeTask i out)
  then show ?thesis
    by (simp add: audit_logAudit completeTask_def updateGoalProgress_def updateGoalStatus_def Let_def
        split: option.splits)
next
  case (Op_failTask i err)
  then show ?thesis by (simp add: audit_logAudit failTask_def Let_def split: option.splits)
next
  case (Op_approveTask i)
  then show ?thesis by (simp add: audit_logAudit approveTask_def Let_def)
qed

lemma audit_append_only_run: "\<exists>rows. audit_events (run_ops ops s) = audit_events s @ rows"
proof (induction ops arbitrary: s)
  case Nil
  then show ?case by (simp add: run_ops_def)
next
  case (Cons op ops)
  from audit_append_only[of op s] obtain r1 where
    r1: "audit_events (apply_op op s) = audit_events s @ r1" by blast
  from Cons.IH[of "apply_op op s"] obtain r2 where
    "audit_events (run_ops ops (apply_op op s)) = audit_events (apply_op op s) @ r2" by blast
  with r1 show ?case by (simp add: run_ops_def)
qed

text \<open>
  Claim C9, at the store the operations build by creating goal 1 and one task of it:
  \<^verbatim>\<open>removeGoal(1)\<close> deletes the goal (and, by the cascade of the schema, its task) and
  returns true, and the audit table still holds the two rows of the creations and nothing
  else: the deletion appends no AuditEvent row. (The deletion of a memory in the same
  database, \<^verbatim>\<open>MemoryStore.forget\<close>, does log \<^verbatim>\<open>memory.forget\<close>.)
\<close>

theorem removeGoal_leaves_audit_untouched:
  "map g_id (goals recorded_scenario) = [1] \<and>
   map event_type (audit_events recorded_scenario) = [''goal.created'', ''task.created''] \<and>
   removeGoal 1 recorded_scenario = Inr (True, recorded_scenario\<lparr>goals := [], tasks := []\<rparr>) \<and>
   audit_events (recorded_scenario\<lparr>goals := [], tasks := []\<rparr>) = audit_events recorded_scenario"
  by (simp add: removeGoal_def recorded_scenario_def run_ops_def addGoal_def addTask_def
      getGoal_def getTask_def logAudit_def tick_def now_def Let_def empty_store_def
      with_priority_def with_approval_def)

section \<open>Retries and terminal failure\<close>

subsection \<open>Retries\<close>

lemma failTask_getTask:
  assumes "getTask i s = Some tk"
  shows "getTask i (failTask i err s) =
     Some (if retry_count tk < max_retries tk
           then tk\<lparr>t_status := T_pending, retry_count := retry_count tk + 1, error := Some err\<rparr>
           else tk\<lparr>t_status := T_failed, error := Some err, completed_at := Some (now s)\<rparr>)"
proof -
  from assms have "find (\<lambda>t. t_id t = i) (tasks s) = Some tk" "t_id tk = i"
    by (auto simp: getTask_def find_Some_iff)
  with assms show ?thesis
    by (simp add: getTask_def failTask_tasks find_update_by_id)
qed

lemma failTask_ids [simp]:
  "map t_id (tasks (failTask i err s)) = map t_id (tasks s)"
  "task_seq (failTask i err s) = task_seq s"
  "goal_seq (failTask i err s) = goal_seq s"
  by (simp_all add: failTask_def Let_def comp_def split: option.splits)

lemma fold_failTask_ids [simp]:
  "map t_id (tasks (fold (failTask i) errs s)) = map t_id (tasks s)"
  "task_seq (fold (failTask i) errs s) = task_seq s"
  "goals (fold (failTask i) errs s) = goals s"
  "goal_seq (fold (failTask i) errs s) = goal_seq s"
  by (induction errs arbitrary: s) simp_all

lemma fold_failTask_retry:
  assumes "getTask i s = Some tk" "errs \<noteq> []" "retry_count tk + length errs \<le> max_retries tk"
  shows "getTask i (fold (failTask i) errs s) =
     Some (tk\<lparr>t_status := T_pending, retry_count := retry_count tk + length errs,
              error := Some (last errs)\<rparr>)"
  using assms
proof (induction errs arbitrary: s tk)
  case Nil
  then show ?case by simp
next
  case (Cons e es)
  let ?tk1 = "tk\<lparr>t_status := T_pending, retry_count := retry_count tk + 1, error := Some e\<rparr>"
  from Cons.prems have g1: "getTask i (failTask i e s) = Some ?tk1"
    by (simp add: failTask_getTask)
  show ?case
  proof (cases "es = []")
    case True
    with g1 show ?thesis by simp
  next
    case False
    from Cons.prems have "retry_count ?tk1 + length es \<le> max_retries ?tk1" by simp
    from Cons.IH[OF g1 False this] False show ?thesis by simp
  qed
qed

lemma fold_failTask_exhaust:
  assumes "getTask i s = Some tk" "retry_count tk = 0" "length errs = Suc (max_retries tk)"
  shows "\<exists>tk'. getTask i (fold (failTask i) errs s) = Some tk' \<and> t_status tk' = T_failed \<and>
           retry_count tk' = max_retries tk \<and> max_retries tk' = max_retries tk \<and>
           requires_approval tk' = requires_approval tk \<and> error tk' = Some (last errs)"
proof -
  from assms(3) obtain es e where errs: "errs = es @ [e]" "length es = max_retries tk"
    by (metis length_Suc_conv_rev)
  show ?thesis
  proof (cases "es = []")
    case True
    with errs assms show ?thesis by (simp add: failTask_getTask)
  next
    case False
    have "getTask i (fold (failTask i) es s) =
      Some (tk\<lparr>t_status := T_pending, retry_count := retry_count tk + length es,
              error := Some (last es)\<rparr>)"
      by (rule fold_failTask_retry[OF assms(1) False]) (simp add: errs assms(2))
    then show ?thesis
      using errs assms(2) by (simp add: failTask_getTask)
  qed
qed

subsection \<open>A retired task stays out of the schedule\<close>

lemma getNextTask_candidate:
  assumes "getNextTask s = Some t"
  shows "t \<in> set (tasks s) \<and> (t_status t = T_pending \<or> t_status t = T_queued)"
proof -
  from assms have "t \<in> set (candidates s)"
    by (auto simp: getNextTask_def first_runnable_find find_Some_iff)
  then obtain g where "(t, g) \<in> set (joined s)" by (auto simp: candidates_joined)
  then show ?thesis by (simp add: joined_set)
qed

lemma retired_not_next: "retired i s \<Longrightarrow> getNextTask s = Some t \<Longrightarrow> t_id t \<noteq> i"
  by (auto simp: retired_def list_all_iff dest!: getNextTask_candidate)

lemma startTask_tasks:
  "tasks (startTask i s) =
     map (\<lambda>t. if t_id t = i then t\<lparr>t_status := T_running, started_at := Some (now s)\<rparr> else t) (tasks s)"
  "task_seq (startTask i s) = task_seq s"
  by (simp_all add: startTask_def Let_def)

lemma completeTask_seq [simp]: "task_seq (completeTask i out s) = task_seq s"
  by (simp add: completeTask_def Let_def split: option.splits)

lemma approveTask_seq [simp]: "task_seq (snd (approveTask i s)) = task_seq s"
  by (simp add: approveTask_def Let_def)

lemma addGoal_tasks:
  "addGoal title opts s = Inr r \<Longrightarrow> tasks (snd r) = tasks s \<and> task_seq (snd r) = task_seq s"
  by (auto simp: addGoal_def Let_def split: if_splits)

lemma removeGoal_tasks:
  "removeGoal i s = Inr r \<Longrightarrow> set (tasks (snd r)) \<subseteq> set (tasks s) \<and> task_seq (snd r) = task_seq s"
  by (auto simp: removeGoal_def Let_def split: if_splits)

lemma addTask_tasks:
  "addTask g title opts s = Inr r \<Longrightarrow>
     \<exists>row. tasks (snd r) = tasks s @ [row] \<and> t_id row = Suc (task_seq s) \<and>
           task_seq (snd r) = Suc (task_seq s)"
  by (auto simp: addTask_def Let_def split: if_splits)

lemma retired_step:
  assumes "retired i s" and "op \<noteq> Op_approveTask i \<or> ungated i s"
  shows "retired i (apply_op op s)"
proof (cases op)
  case (Op_addGoal title opts)
  with assms(1) show ?thesis
    by (auto simp: retired_def dest: addGoal_tasks split: sum.splits)
next
  case (Op_updateGoalStatus j st)
  with assms(1) show ?thesis by (simp add: retired_def)
next
  case (Op_updateGoalProgress j)
  with assms(1) show ?thesis by (simp add: retired_def)
next
  case (Op_removeGoal j)
  with assms(1) show ?thesis
    by (auto simp: retired_def list_all_iff dest!: removeGoal_tasks split: sum.splits)
next
  case (Op_addTask g title opts)
  with assms(1) show ?thesis
    by (auto simp: retired_def dest!: addTask_tasks split: sum.splits)
next
  case (Op_startTask j)
  with assms(1) show ?thesis
    by (auto simp: retired_def startTask_tasks list_all_iff)
next
  case (Op_completeTask j out)
  with assms(1) show ?thesis
    by (auto simp: retired_def completeTask_tasks list_all_iff)
next
  case (Op_failTask j err)
  show ?thesis
  proof (cases "getTask j s")
    case None
    with assms(1) Op_failTask show ?thesis by (simp add: failTask_def)
  next
    case (Some tk)
    then have tk: "tk \<in> set (tasks s)" "t_id tk = j" by (auto dest: getTask_SomeD)
    show ?thesis
    proof (cases "j = i")
      case True
      with tk assms(1) have "\<not> retry_count tk < max_retries tk"
        by (auto simp: retired_def list_all_iff)
      with assms(1) Some Op_failTask show ?thesis
        by (auto simp: retired_def failTask_tasks list_all_iff)
    next
      case False
      with assms(1) Some Op_failTask show ?thesis
        by (auto simp: retired_def failTask_tasks list_all_iff)
    qed
  qed
next
  case (Op_approveTask j)
  with assms show ?thesis
    by (auto simp: retired_def ungated_def approveTask_tasks list_all_iff)
qed

lemma ungated_step:
  assumes "ungated i s" and "i \<le> task_seq s"
  shows "ungated i (apply_op op s)"
proof (cases op)
  case (Op_addGoal title opts)
  with assms show ?thesis
    by (auto simp: ungated_def dest: addGoal_tasks split: sum.splits)
next
  case (Op_updateGoalStatus j st)
  with assms show ?thesis by (simp add: ungated_def)
next
  case (Op_updateGoalProgress j)
  with assms show ?thesis by (simp add: ungated_def)
next
  case (Op_removeGoal j)
  with assms show ?thesis
    by (auto simp: ungated_def list_all_iff dest!: removeGoal_tasks split: sum.splits)
next
  case (Op_addTask g title opts)
  with assms show ?thesis
    by (auto simp: ungated_def dest!: addTask_tasks split: sum.splits)
next
  case (Op_startTask j)
  with assms show ?thesis
    by (auto simp: ungated_def startTask_tasks list_all_iff)
next
  case (Op_completeTask j out)
  with assms show ?thesis
    by (auto simp: ungated_def completeTask_tasks list_all_iff)
next
  case (Op_failTask j err)
  with assms show ?thesis
    by (auto simp: ungated_def failTask_tasks list_all_iff split: option.splits)
next
  case (Op_approveTask j)
  with assms show ?thesis
    by (auto simp: ungated_def approveTask_tasks list_all_iff)
qed

lemma retired_run:
  assumes "retired i s" and "Op_approveTask i \<notin> set ops \<or> ungated i s"
  shows "retired i (run_ops ops s)"
  using assms unfolding run_ops_def
proof (induction ops arbitrary: s)
  case Nil
  then show ?case by simp
next
  case (Cons op ops)
  from Cons.prems have step: "retired i (apply_op op s)"
    by (auto intro: retired_step)
  from Cons.prems have "Op_approveTask i \<notin> set ops \<or> ungated i (apply_op op s)"
    by (auto intro: ungated_step simp: retired_def)
  from Cons.IH[OF step this] show ?case by simp
qed

lemma fold_failTask_wf: "wf_store s \<Longrightarrow> wf_store (fold (failTask i) errs s)"
proof -
  assume wf: "wf_store s"
  have ids: "list_all (\<lambda>t. t_id t \<le> n) ts = list_all (\<lambda>j. j \<le> n) (map t_id ts)"
    for n and ts :: "task list"
    by (simp add: list_all_iff)
  from wf show ?thesis
    unfolding wf_store_def ids by simp
qed

lemma fold_failTask_eligible:
  assumes "wf_store s" "t_status tk' = T_pending" "goal_id tk' = goal_id tk" "depends_on tk' = depends_on tk"
    "requires_approval tk' = requires_approval tk" "approved_at tk' = approved_at tk"
  shows "eligible (fold (failTask i) errs s) tk' =
          (owner_active s tk \<and>
           list_all (dep_completed (fold (failTask i) errs s)) (depends_on tk) \<and>
           (requires_approval tk = False \<or> approved_at tk \<noteq> None))"
proof -
  from assms(1) have "distinct (map t_id (tasks (fold (failTask i) errs s)))"
    by (simp add: wf_store_def)
  then show ?thesis
    using assms(2-) by (simp add: eligible_lookup owner_active_def)
qed

text \<open>
  Claim C4, amended. For a task of a well-formed store whose \<^verbatim>\<open>retry_count\<close> is 0: after
  any number of \<^verbatim>\<open>failTask\<close> calls between 1 and \<^verbatim>\<open>max_retries\<close>, its status is pending,
  its \<^verbatim>\<open>retry_count\<close> is the number of calls, and it is eligible whenever its goal is
  active, its dependencies are completed and its approval gate is open; after exactly
  \<^verbatim>\<open>max_retries + 1\<close> calls its status is failed with \<^verbatim>\<open>retry_count = max_retries\<close>, and
  \<^verbatim>\<open>getNextTask\<close> does not return it in any store reached from there by the writing
  operations of the store, unless \<^verbatim>\<open>approveTask\<close> is called on it and it requires approval.
\<close>

theorem retries_then_terminal_failure:
  assumes "wf_store s" "getTask i s = Some tk" "retry_count tk = 0"
  shows "(\<forall>errs. errs \<noteq> [] \<and> length errs \<le> max_retries tk \<longrightarrow>
            (\<exists>tk'. getTask i (fold (failTask i) errs s) = Some tk' \<and>
               t_status tk' = T_pending \<and> retry_count tk' = length errs \<and>
               eligible (fold (failTask i) errs s) tk' =
                 (owner_active s tk \<and>
                  list_all (dep_completed (fold (failTask i) errs s)) (depends_on tk) \<and>
                  (requires_approval tk = False \<or> approved_at tk \<noteq> None)))) \<and>
         (\<forall>errs. length errs = Suc (max_retries tk) \<longrightarrow>
            (\<exists>tk'. getTask i (fold (failTask i) errs s) = Some tk' \<and>
               t_status tk' = T_failed \<and> retry_count tk' = max_retries tk) \<and>
            (\<forall>ops. Op_approveTask i \<notin> set ops \<or> \<not> requires_approval tk \<longrightarrow>
               map_option t_id (getNextTask (run_ops ops (fold (failTask i) errs s))) \<noteq> Some i))"
proof (intro conjI allI impI)
  fix errs :: "string list"
  assume "errs \<noteq> [] \<and> length errs \<le> max_retries tk"
  then have g: "getTask i (fold (failTask i) errs s) =
     Some (tk\<lparr>t_status := T_pending, retry_count := retry_count tk + length errs,
              error := Some (last errs)\<rparr>)"
    using assms by (intro fold_failTask_retry) simp_all
  let ?tk' = "tk\<lparr>t_status := T_pending, retry_count := retry_count tk + length errs,
              error := Some (last errs)\<rparr>"
  have "eligible (fold (failTask i) errs s) ?tk' =
          (owner_active s tk \<and>
           list_all (dep_completed (fold (failTask i) errs s)) (depends_on tk) \<and>
           (requires_approval tk = False \<or> approved_at tk \<noteq> None))"
    by (rule fold_failTask_eligible) (simp_all add: assms(1))
  with g assms(3)
  show "\<exists>tk'. getTask i (fold (failTask i) errs s) = Some tk' \<and>
               t_status tk' = T_pending \<and> retry_count tk' = length errs \<and>
               eligible (fold (failTask i) errs s) tk' =
                 (owner_active s tk \<and>
                  list_all (dep_completed (fold (failTask i) errs s)) (depends_on tk) \<and>
                  (requires_approval tk = False \<or> approved_at tk \<noteq> None))"
    by (intro exI[of _ ?tk']) simp
next
  fix errs :: "string list"
  assume len: "length errs = Suc (max_retries tk)"
  from fold_failTask_exhaust[OF assms(2,3) len]
  show "\<exists>tk'. getTask i (fold (failTask i) errs s) = Some tk' \<and>
               t_status tk' = T_failed \<and> retry_count tk' = max_retries tk"
    by blast
next
  fix errs :: "string list" and ops
  assume len: "length errs = Suc (max_retries tk)"
    and ops: "Op_approveTask i \<notin> set ops \<or> \<not> requires_approval tk"
  let ?s' = "fold (failTask i) errs s"
  from fold_failTask_exhaust[OF assms(2,3) len]
  obtain tk' where tk': "getTask i ?s' = Some tk'" "t_status tk' = T_failed"
    "retry_count tk' = max_retries tk" "max_retries tk' = max_retries tk"
    "requires_approval tk' = requires_approval tk"
    by blast
  have wf': "wf_store ?s'" by (rule fold_failTask_wf[OF assms(1)])
  then have dt: "distinct (map t_id (tasks ?s'))" by (simp add: wf_store_def)
  have only: "t = tk'" if "t \<in> set (tasks ?s')" "t_id t = i" for t
    using getTask_member[OF dt that(1)] that(2) tk'(1) by simp
  from tk'(1) have "tk' \<in> set (tasks ?s')" by (auto dest: getTask_SomeD)
  with wf' have "t_id tk' \<le> task_seq ?s'" by (auto simp: wf_store_def list_all_iff)
  moreover have "t_id tk' = i" using tk'(1) by (auto dest: getTask_SomeD)
  ultimately have seq: "i \<le> task_seq ?s'" by simp
  have ret: "retired i ?s'"
    unfolding retired_def list_all_iff using seq only tk'(2-4) by auto
  have "Op_approveTask i \<notin> set ops \<or> ungated i ?s'"
    using ops only tk'(5) unfolding ungated_def list_all_iff by auto
  from retired_run[OF ret this] have "retired i (run_ops ops ?s')" .
  then show "map_option t_id (getNextTask (run_ops ops ?s')) \<noteq> Some i"
    by (auto dest: retired_not_next)
qed

text \<open>
  The task of \<open>retry_scenario\<close> has \<^verbatim>\<open>max_retries\<close> 3: two failures leave it pending with
  \<^verbatim>\<open>retry_count\<close> 2, four make it failed, and it stays out of the schedule when it is
  started and failed once more.
\<close>

theorem retries_then_terminal_failure_witness:
  "wf_store retry_scenario \<and>
   getTask 1 retry_scenario = Some (fresh_task 1 1 ''flaky'') \<and>
   retry_count (fresh_task 1 1 ''flaky'') = 0 \<and>
   (\<exists>tk'. getTask 1 (fold (failTask 1) [''e1'', ''e2''] retry_scenario) = Some tk' \<and>
      t_status tk' = T_pending \<and> retry_count tk' = 2) \<and>
   (\<exists>tk'. getTask 1 (fold (failTask 1) [''e1'', ''e2'', ''e3'', ''e4''] retry_scenario) = Some tk' \<and>
      t_status tk' = T_failed \<and> retry_count tk' = 3) \<and>
   map_option t_id
     (getNextTask (run_ops [Op_startTask 1, Op_failTask 1 ''e5'']
        (fold (failTask 1) [''e1'', ''e2'', ''e3'', ''e4''] retry_scenario))) \<noteq> Some 1"
proof -
  have wf: "wf_store retry_scenario"
    by (simp add: wf_store_def retry_scenario_def scenario_defs)
  have g: "getTask 1 retry_scenario = Some (fresh_task 1 1 ''flaky'')"
    by (simp add: getTask_def retry_scenario_def scenario_defs)
  have rc: "retry_count (fresh_task 1 1 ''flaky'') = 0" and mx: "max_retries (fresh_task 1 1 ''flaky'') = 3"
    by (simp_all add: fresh_task_def)
  note main = retries_then_terminal_failure[OF wf g rc, unfolded mx]
  from main have a: "\<exists>tk'. getTask 1 (fold (failTask 1) [''e1'', ''e2''] retry_scenario) = Some tk' \<and>
      t_status tk' = T_pending \<and> retry_count tk' = 2"
    by (elim conjE allE[of _ "[''e1'', ''e2'']"]) auto
  from main have b: "(\<exists>tk'. getTask 1 (fold (failTask 1) [''e1'', ''e2'', ''e3'', ''e4''] retry_scenario) = Some tk' \<and>
      t_status tk' = T_failed \<and> retry_count tk' = 3) \<and>
      (\<forall>ops. Op_approveTask 1 \<notin> set ops \<or> \<not> requires_approval (fresh_task 1 1 ''flaky'') \<longrightarrow>
         map_option t_id (getNextTask (run_ops ops
           (fold (failTask 1) [''e1'', ''e2'', ''e3'', ''e4''] retry_scenario))) \<noteq> Some 1)"
    by (elim conjE allE[of _ "[''e1'', ''e2'', ''e3'', ''e4'']"]) simp
  then have c: "map_option t_id
     (getNextTask (run_ops [Op_startTask 1, Op_failTask 1 ''e5'']
        (fold (failTask 1) [''e1'', ''e2'', ''e3'', ''e4''] retry_scenario))) \<noteq> Some 1"
    by (elim conjE allE[of _ "[Op_startTask 1, Op_failTask 1 ''e5'']"]) simp
  from wf g rc a b c show ?thesis by blast
qed

text \<open>
  Claim C4 as stated fails twice. With \<^verbatim>\<open>max_retries\<close> 3, the third \<^verbatim>\<open>failTask\<close> still finds
  \<^verbatim>\<open>retry_count = 2 < 3\<close>: the task is pending again and \<^verbatim>\<open>getNextTask\<close> returns it. And
  the task of \<open>gated_failed_scenario\<close>, which requires approval and has failed for good by
  four calls, is queued by \<^verbatim>\<open>approveTask\<close> and returned again.
\<close>

theorem retries_off_by_one_counterexample:
  "max_retries (fresh_task 1 1 ''flaky'') = 3 \<and>
   getTask 1 retry_scenario = Some (fresh_task 1 1 ''flaky'') \<and>
   map_option t_status (getTask 1 (fold (failTask 1) [''e1'', ''e2'', ''e3''] retry_scenario)) =
     Some T_pending \<and>
   map_option t_id (getNextTask (fold (failTask 1) [''e1'', ''e2'', ''e3''] retry_scenario)) = Some 1 \<and>
   map_option t_status (getTask 1 gated_failed_scenario) = Some T_failed \<and>
   map_option t_id (getNextTask (run_ops [Op_approveTask 1] gated_failed_scenario)) = Some 1"
  by (simp add: run_ops_def failTask_def approveTask_def getTask_def getNextTask_def candidates_def
      logAudit_def tick_def now_def Let_def retry_scenario_def gated_failed_scenario_def
      approved_scenario_def gated_scenario_def scenario_defs)

section \<open>Batch draining: \<^verbatim>\<open>processQueue\<close>\<close>

lemma processQueue_loop_invariant:
  assumes "processQueue_loop run m r s = (r', s')"
    and "processed r = completed r + failed r"
    and "length (results r) = processed r"
    and "completed r = length (filter success (results r))"
  shows "processed r' = completed r' + failed r' \<and>
         length (results r') = processed r' \<and>
         completed r' = length (filter success (results r')) \<and>
         (int (processed r') < m \<longrightarrow> getNextTask s' = None) \<and>
         (int (processed r) \<le> m \<longrightarrow> int (processed r') \<le> m) \<and>
         processed r \<le> processed r'"
  using assms
proof (induction run m r s arbitrary: r' s' rule: processQueue_loop.induct)
  case (1 run maxTasks r s)
  show ?case
  proof (cases "int (processed r) < maxTasks")
    case False
    with "1.prems"(1) have "r' = r" "s' = s"
      by (simp_all add: processQueue_loop.simps[of run maxTasks r s])
    with False "1.prems" show ?thesis by simp
  next
    case True
    show ?thesis
    proof (cases "getNextTask s")
      case None
      with True "1.prems"(1) have "r' = r" "s' = s"
        by (simp_all add: processQueue_loop.simps[of run maxTasks r s])
      with None True "1.prems" show ?thesis by simp
    next
      case (Some tk)
      obtain ok out s1 where ex: "execute run tk s = ((ok, out), s1)"
        by (metis prod.exhaust)
      let ?r1 = "r\<lparr>processed := processed r + 1,
                   results := results r @
                     [\<lparr>taskId = t_id tk, r_title = t_title tk, success = ok,
                       r_output = take 500 out\<rparr>],
                   completed := (if ok then completed r + 1 else completed r),
                   failed := (if ok then failed r else failed r + 1)\<rparr>"
      from True Some ex "1.prems"(1) have rec: "processQueue_loop run maxTasks ?r1 s1 = (r', s')"
        by (simp add: processQueue_loop.simps[of run maxTasks r s])
      have "processed ?r1 = completed ?r1 + failed ?r1" "length (results ?r1) = processed ?r1"
        "completed ?r1 = length (filter success (results ?r1))"
        using "1.prems"(2-4) by auto
      from "1.IH"[OF True Some ex[symmetric] refl rec this]
      show ?thesis using True by auto
    qed
  qed
qed

text \<open>
  Claim C5, amended. \<^verbatim>\<open>processQueue(maxTasks)\<close> stops only when \<^verbatim>\<open>maxTasks\<close> executions have
  been counted or \<^verbatim>\<open>getNextTask\<close> finds nothing; a failed execution does not stop it. Its
  counts satisfy processed = completed + failed, with one result per execution. In
  particular, with two eligible tasks of which the first has no retry left and fails and
  the second succeeds, \<^verbatim>\<open>processQueue(5)\<close> executes both: processed = 2, completed = 1,
  failed = 1.
\<close>

theorem processQueue_continues_after_failure:
  "(case processQueue run maxTasks s of
      (r, s') \<Rightarrow>
        processed r = completed r + failed r \<and>
        length (results r) = processed r \<and>
        completed r = length (filter success (results r)) \<and>
        int (processed r) \<le> max 0 maxTasks \<and>
        (int (processed r) < maxTasks \<longrightarrow> getNextTask s' = None)) \<and>
   list_all (eligible two_task_exhausted_scenario) (tasks two_task_exhausted_scenario) \<and>
   map retry_count (tasks two_task_exhausted_scenario) = [3, 0] \<and>
   map max_retries (tasks two_task_exhausted_scenario) = [3, 3] \<and>
   (case processQueue first_fails 5 two_task_exhausted_scenario of
      (r, s') \<Rightarrow>
        processed r = 2 \<and> completed r = 1 \<and> failed r = 1 \<and>
        map taskId (results r) = [1, 2] \<and> map success (results r) = [False, True] \<and>
        map t_status (tasks s') = [T_failed, T_completed])"
proof (intro conjI)
  obtain r s' where p: "processQueue run maxTasks s = (r, s')" by (cases "processQueue run maxTasks s")
  let ?r0 = "\<lparr>processed = 0, completed = 0, failed = 0, results = []\<rparr>"
  from p have loop: "processQueue_loop run maxTasks ?r0 s = (r, s')"
    by (simp add: processQueue_def)
  have r0: "processed ?r0 = completed ?r0 + failed ?r0" "length (results ?r0) = processed ?r0"
    "completed ?r0 = length (filter success (results ?r0))"
    by simp_all
  note I = processQueue_loop_invariant[OF loop r0]
  from I have inv: "processed r = completed r + failed r" "length (results r) = processed r"
    "completed r = length (filter success (results r))"
    "int (processed r) < maxTasks \<longrightarrow> getNextTask s' = None"
    by blast+
  from I have "int (processed ?r0) \<le> maxTasks \<longrightarrow> int (processed r) \<le> maxTasks"
    by blast
  then have inv5: "0 \<le> maxTasks \<longrightarrow> int (processed r) \<le> maxTasks" by simp
  have "int (processed r) \<le> max 0 maxTasks"
  proof (cases "0 \<le> maxTasks")
    case True
    with inv5 show ?thesis by simp
  next
    case False
    then have "\<not> int 0 < maxTasks" by simp
    then have "processQueue run maxTasks s =
        (\<lparr>processed = 0, completed = 0, failed = 0, results = []\<rparr>, s)"
      by (simp add: processQueue_def processQueue_loop.simps)
    with p show ?thesis by auto
  qed
  with inv p show "case processQueue run maxTasks s of
      (r, s') \<Rightarrow>
        processed r = completed r + failed r \<and>
        length (results r) = processed r \<and>
        completed r = length (filter success (results r)) \<and>
        int (processed r) \<le> max 0 maxTasks \<and>
        (int (processed r) < maxTasks \<longrightarrow> getNextTask s' = None)"
    by simp
next
  show "list_all (eligible two_task_exhausted_scenario) (tasks two_task_exhausted_scenario)"
    "map retry_count (tasks two_task_exhausted_scenario) = [3, 0]"
    "map max_retries (tasks two_task_exhausted_scenario) = [3, 3]"
    by (simp_all add: eligible_def owner_active_def dep_met_def getGoal_def failTask_def getTask_def
        logAudit_def tick_def Let_def two_task_exhausted_scenario_def two_task_scenario_def
        scenario_defs)
next
  show "case processQueue first_fails 5 two_task_exhausted_scenario of
      (r, s') \<Rightarrow>
        processed r = 2 \<and> completed r = 1 \<and> failed r = 1 \<and>
        map taskId (results r) = [1, 2] \<and> map success (results r) = [False, True] \<and>
        map t_status (tasks s') = [T_failed, T_completed]"
    by (simp add: processQueue_def processQueue_loop.simps execute_def first_fails_def
      startTask_def completeTask_def failTask_def updateGoalProgress_def updateGoalStatus_def
      listTasks_def getTask_def getNextTask_def candidates_def logAudit_def tick_def now_def
      Let_def two_task_exhausted_scenario_def two_task_scenario_def scenario_defs)
qed

text \<open>
  With the exhausted first task, the call stops after two executions because nothing is
  eligible any more, not because of the failure.
\<close>

theorem processQueue_continues_after_failure_witness:
  "int (processed (fst (processQueue first_fails 5 two_task_exhausted_scenario))) < 5 \<and>
   getNextTask (snd (processQueue first_fails 5 two_task_exhausted_scenario)) = None \<and>
   processed (fst (processQueue first_fails 5 two_task_exhausted_scenario)) = 2"
  using processQueue_continues_after_failure[where run = first_fails and maxTasks = 5
      and s = two_task_exhausted_scenario]
  by (auto split: prod.splits)

text \<open>
  Claim C5 as stated fails on two fresh tasks, both eligible: the first fails every time it
  is run and has the three retries of the schema, so the same call pulls it four times
  before it reaches the second task. \<^verbatim>\<open>processQueue(5)\<close> reports processed = 5,
  completed = 1, failed = 4.
\<close>

theorem processQueue_retries_counterexample:
  "eligible two_task_scenario (fresh_task 1 1 ''first'') \<and>
   eligible two_task_scenario (fresh_task 2 1 ''second'') \<and>
   (case processQueue first_fails 5 two_task_scenario of
      (r, s') \<Rightarrow>
        processed r = 5 \<and> completed r = 1 \<and> failed r = 4 \<and>
        map taskId (results r) = [1, 1, 1, 1, 2] \<and>
        map success (results r) = [False, False, False, False, True])"
  by (simp add: processQueue_def processQueue_loop.simps execute_def first_fails_def
      startTask_def completeTask_def failTask_def updateGoalProgress_def updateGoalStatus_def
      listTasks_def getTask_def getNextTask_def candidates_def logAudit_def tick_def now_def
      eligible_def owner_active_def dep_met_def getGoal_def
      Let_def two_task_scenario_def scenario_defs)

section \<open>The daemon: \<^verbatim>\<open>processGoalQueue\<close>\<close>

lemma processGoalQueue_none:
  "getNextTask s = None \<Longrightarrow> processGoalQueue ex (st, s) = (st, s)"
  by (simp add: processGoalQueue.simps)

lemma processGoalQueue_success:
  "getNextTask s = Some tk \<Longrightarrow> ex (startTask (t_id tk) s) tk = Inr result \<Longrightarrow>
   processGoalQueue ex (st, s) =
     processGoalQueue ex
       (st\<lparr>tasksProcessed := tasksProcessed st + 1, tasksCompleted := tasksCompleted st + 1\<rparr>,
        completeTask (t_id tk) result (startTask (t_id tk) s))"
  by (simp add: processGoalQueue.simps[of ex st s] Let_def)

lemma processGoalQueue_failure:
  "getNextTask s = Some tk \<Longrightarrow> ex (startTask (t_id tk) s) tk = Inl err \<Longrightarrow>
   processGoalQueue ex (st, s) =
     (st\<lparr>tasksProcessed := tasksProcessed st + 1, tasksFailed := tasksFailed st + 1\<rparr>,
      failTask (t_id tk) err (startTask (t_id tk) s))"
  by (simp add: processGoalQueue.simps[of ex st s] Let_def)

lemma getTask_other_update:
  assumes "j \<noteq> i" "\<And>t. t_id (f t) = t_id t"
  shows "find (\<lambda>t. t_id t = j) (map (\<lambda>t. if t_id t = i then f t else t) xs) =
         find (\<lambda>t. t_id t = j) xs"
  using assms by (induction xs) auto

lemma startTask_other: "j \<noteq> i \<Longrightarrow> getTask j (startTask i s) = getTask j s"
  by (simp add: getTask_def startTask_tasks getTask_other_update)

lemma failTask_other: "j \<noteq> i \<Longrightarrow> getTask j (failTask i err s) = getTask j s"
  by (simp add: getTask_def failTask_tasks getTask_other_update split: option.splits)

lemma processGoalQueue_run:
  assumes "processGoalQueue ex (st, s) = (st', s')"
  shows "(tasksFailed st' = tasksFailed st \<or> tasksFailed st' = tasksFailed st + 1) \<and>
         tasksCompleted st \<le> tasksCompleted st' \<and>
         tasksProcessed st' + tasksCompleted st + tasksFailed st =
           tasksProcessed st + tasksCompleted st' + tasksFailed st' \<and>
         (tasksFailed st' = tasksFailed st \<longrightarrow> getNextTask s' = None)"
  using assms
proof (induction ex "(st, s)" arbitrary: st s rule: processGoalQueue.induct)
  case (1 ex st s)
  show ?case
  proof (cases "getNextTask s")
    case None
    with "1.prems" show ?thesis by (simp add: processGoalQueue_none)
  next
    case (Some tk)
    show ?thesis
    proof (cases "ex (startTask (t_id tk) s) tk")
      case (Inl err)
      with Some "1.prems" show ?thesis by (auto simp: processGoalQueue_failure)
    next
      case (Inr result)
      let ?st1 = "st\<lparr>tasksProcessed := tasksProcessed st + 1\<rparr>"
      let ?st2 = "?st1\<lparr>tasksCompleted := tasksCompleted ?st1 + 1\<rparr>"
      let ?s2 = "completeTask (t_id tk) result (startTask (t_id tk) s)"
      from Some Inr "1.prems" have rec: "processGoalQueue ex (?st2, ?s2) = (st', s')"
        by (simp add: processGoalQueue_success)
      from "1.hyps"[OF Some refl refl Inr rec]
      show ?thesis by auto
    qed
  qed
qed

lemma startTask_marks_running:
  assumes "getNextTask s = Some tk"
  shows "map_option t_status (getTask (t_id tk) (startTask (t_id tk) s)) = Some T_running"
proof -
  from assms have "tk \<in> set (tasks s)" by (auto dest: getNextTask_candidate)
  then obtain t0 where "find (\<lambda>t. t_id t = t_id tk) (tasks s) = Some t0"
    by (cases "find (\<lambda>t. t_id t = t_id tk) (tasks s)") (auto simp: find_None_iff)
  moreover from this have "t_id t0 = t_id tk" by (auto simp: find_Some_iff)
  ultimately show ?thesis
    by (simp add: getTask_def startTask_tasks find_update_by_id)
qed

text \<open>
  Claim C6. One invocation of \<^verbatim>\<open>processGoalQueue\<close> returns at once, changing nothing, when
  \<^verbatim>\<open>getNextTask\<close> yields no task. Otherwise it marks the selected task running and
  executes it. On success it completes the task and goes on as a fresh invocation from
  the resulting store. On failure it calls \<^verbatim>\<open>failTask\<close> and stops: every task but the
  selected one is left exactly as it was, so that a second eligible task is still
  pending. A whole invocation therefore counts at most one failure, and when it counts
  none it has drained the queue.
\<close>

theorem processGoalQueue_fail_stop:
  "(getNextTask s = None \<longrightarrow> processGoalQueue ex (st, s) = (st, s)) \<and>
   (\<forall>tk. getNextTask s = Some tk \<longrightarrow>
      map_option t_status (getTask (t_id tk) (startTask (t_id tk) s)) = Some T_running \<and>
      (\<forall>result. ex (startTask (t_id tk) s) tk = Inr result \<longrightarrow>
         processGoalQueue ex (st, s) =
           processGoalQueue ex
             (st\<lparr>tasksProcessed := tasksProcessed st + 1, tasksCompleted := tasksCompleted st + 1\<rparr>,
              completeTask (t_id tk) result (startTask (t_id tk) s))) \<and>
      (\<forall>err. ex (startTask (t_id tk) s) tk = Inl err \<longrightarrow>
         processGoalQueue ex (st, s) =
           (st\<lparr>tasksProcessed := tasksProcessed st + 1, tasksFailed := tasksFailed st + 1\<rparr>,
            failTask (t_id tk) err (startTask (t_id tk) s)) \<and>
         (\<forall>j. j \<noteq> t_id tk \<longrightarrow> getTask j (snd (processGoalQueue ex (st, s))) = getTask j s))) \<and>
   (case processGoalQueue ex (st, s) of
      (st', s') \<Rightarrow>
        (tasksFailed st' = tasksFailed st \<or> tasksFailed st' = tasksFailed st + 1) \<and>
        tasksProcessed st' + tasksCompleted st + tasksFailed st =
          tasksProcessed st + tasksCompleted st' + tasksFailed st' \<and>
        (tasksFailed st' = tasksFailed st \<longrightarrow> getNextTask s' = None))"
proof (intro conjI allI impI)
  assume "getNextTask s = None"
  then show "processGoalQueue ex (st, s) = (st, s)" by (rule processGoalQueue_none)
next
  fix tk assume "getNextTask s = Some tk"
  then show "map_option t_status (getTask (t_id tk) (startTask (t_id tk) s)) = Some T_running"
    by (rule startTask_marks_running)
next
  fix tk result
  assume "getNextTask s = Some tk" "ex (startTask (t_id tk) s) tk = Inr result"
  then show "processGoalQueue ex (st, s) =
           processGoalQueue ex
             (st\<lparr>tasksProcessed := tasksProcessed st + 1, tasksCompleted := tasksCompleted st + 1\<rparr>,
              completeTask (t_id tk) result (startTask (t_id tk) s))"
    by (rule processGoalQueue_success)
next
  fix tk err
  assume "getNextTask s = Some tk" "ex (startTask (t_id tk) s) tk = Inl err"
  then show "processGoalQueue ex (st, s) =
           (st\<lparr>tasksProcessed := tasksProcessed st + 1, tasksFailed := tasksFailed st + 1\<rparr>,
            failTask (t_id tk) err (startTask (t_id tk) s))"
    by (rule processGoalQueue_failure)
next
  fix tk err j
  assume "getNextTask s = Some tk" "ex (startTask (t_id tk) s) tk = Inl err" "j \<noteq> t_id tk"
  then show "getTask j (snd (processGoalQueue ex (st, s))) = getTask j s"
    by (simp add: processGoalQueue_failure failTask_other startTask_other)
next
  obtain st' s' where r: "processGoalQueue ex (st, s) = (st', s')"
    by (cases "processGoalQueue ex (st, s)")
  from processGoalQueue_run[OF r] r
  show "case processGoalQueue ex (st, s) of
      (st', s') \<Rightarrow>
        (tasksFailed st' = tasksFailed st \<or> tasksFailed st' = tasksFailed st + 1) \<and>
        tasksProcessed st' + tasksCompleted st + tasksFailed st =
          tasksProcessed st + tasksCompleted st' + tasksFailed st' \<and>
        (tasksFailed st' = tasksFailed st \<longrightarrow> getNextTask s' = None)"
    by simp
qed

text \<open>
  The two fresh tasks of \<open>two_task_scenario\<close>, the first of which is rejected: one invocation
  runs task 1 only. Task 2 is the row it was, pending, and is what \<^verbatim>\<open>getNextTask\<close> would
  not yet reach, task 1 being pending again with one retry counted.
\<close>

theorem processGoalQueue_fail_stop_witness:
  "getNextTask two_task_scenario = Some (fresh_task 1 1 ''first'') \<and>
   rejects_first (startTask 1 two_task_scenario) (fresh_task 1 1 ''first'') = Inl ''boom'' \<and>
   rejects_first (startTask 2 two_task_scenario) (fresh_task 2 1 ''second'') =
     Inr (executeTask (fresh_task 2 1 ''second'')) \<and>
   fst (processGoalQueue rejects_first (no_stats, two_task_scenario)) =
     \<lparr>tasksProcessed = 1, tasksCompleted = 0, tasksFailed = 1\<rparr> \<and>
   getTask 2 (snd (processGoalQueue rejects_first (no_stats, two_task_scenario))) =
     Some (fresh_task 2 1 ''second'') \<and>
   t_status (fresh_task 2 1 ''second'') = T_pending \<and>
   map t_status (tasks (snd (processGoalQueue rejects_first (no_stats, two_task_scenario)))) =
     [T_pending, T_pending] \<and>
   map retry_count (tasks (snd (processGoalQueue rejects_first (no_stats, two_task_scenario)))) = [1, 0]"
proof -
  have n: "getNextTask two_task_scenario = Some (fresh_task 1 1 ''first'')"
    by (simp add: getNextTask_def candidates_def two_task_scenario_def scenario_defs)
  have id1: "t_id (fresh_task 1 1 ''first'') = 1" by (simp add: fresh_task_def)
  have rj: "rejects_first (startTask 1 two_task_scenario) (fresh_task 1 1 ''first'') = Inl ''boom''"
    by (simp add: rejects_first_def fresh_task_def)
  have ok: "rejects_first (startTask 2 two_task_scenario) (fresh_task 2 1 ''second'') =
     Inr (executeTask (fresh_task 2 1 ''second''))"
    by (simp add: rejects_first_def fresh_task_def)
  have g2: "getTask 2 two_task_scenario = Some (fresh_task 2 1 ''second'')"
    by (simp add: getTask_def two_task_scenario_def scenario_defs)
  note main = processGoalQueue_fail_stop[where s = two_task_scenario and ex = rejects_first
      and st = no_stats]
  from main n have
    "\<forall>err. rejects_first (startTask (t_id (fresh_task 1 1 ''first'')) two_task_scenario)
            (fresh_task 1 1 ''first'') = Inl err \<longrightarrow>
       processGoalQueue rejects_first (no_stats, two_task_scenario) =
         (no_stats\<lparr>tasksProcessed := tasksProcessed no_stats + 1,
                    tasksFailed := tasksFailed no_stats + 1\<rparr>,
          failTask (t_id (fresh_task 1 1 ''first'')) err
            (startTask (t_id (fresh_task 1 1 ''first'')) two_task_scenario)) \<and>
       (\<forall>j. j \<noteq> t_id (fresh_task 1 1 ''first'') \<longrightarrow>
          getTask j (snd (processGoalQueue rejects_first (no_stats, two_task_scenario))) =
          getTask j two_task_scenario)"
    by blast
  with rj have stop: "processGoalQueue rejects_first (no_stats, two_task_scenario) =
      (no_stats\<lparr>tasksProcessed := tasksProcessed no_stats + 1,
                 tasksFailed := tasksFailed no_stats + 1\<rparr>,
       failTask 1 ''boom'' (startTask 1 two_task_scenario))"
    and other: "\<forall>j. j \<noteq> 1 \<longrightarrow>
      getTask j (snd (processGoalQueue rejects_first (no_stats, two_task_scenario))) =
      getTask j two_task_scenario"
    unfolding id1 by blast+
  from other have other2: "getTask 2 (snd (processGoalQueue rejects_first (no_stats, two_task_scenario))) =
      getTask 2 two_task_scenario"
    by simp
  have st: "map t_status (tasks (failTask 1 ''boom'' (startTask 1 two_task_scenario))) =
      [T_pending, T_pending]"
    "map retry_count (tasks (failTask 1 ''boom'' (startTask 1 two_task_scenario))) = [1, 0]"
    by (simp_all add: failTask_def startTask_def getTask_def logAudit_def tick_def now_def Let_def
        two_task_scenario_def scenario_defs)
  from n rj ok stop other2 g2 st show ?thesis
    by (simp add: no_stats_def fresh_task_def)
qed

section \<open>Decomposition: \<^verbatim>\<open>decomposeAndCreate\<close>\<close>

lemma ascii_eq_iff [simp]: "ascii xs = ascii ys \<longleftrightarrow> xs = ys"
proof -
  have "inj (\<lambda>c :: char. (of_nat (of_char c) :: 16 word))"
  proof (rule injI)
    fix a b :: char
    assume eq: "(of_nat (of_char a) :: 16 word) = of_nat (of_char b)"
    have "(of_char a :: nat) < 2 ^ 16" "(of_char b :: nat) < 2 ^ 16"
      by (rule less_trans[OF nat_of_char_less_256], simp)+
    with eq have "(of_char a :: nat) = of_char b"
      by (simp add: word_of_nat_eq_iff take_bit_nat_eq_self)
    then show "a = b" by simp
  qed
  then show ?thesis by (simp add: ascii_def inj_map_eq_map)
qed

lemma ascii_Nil_iff [simp]: "ascii xs = [] \<longleftrightarrow> xs = []"
  by (simp add: ascii_def)

lemma ascii_append: "ascii (xs @ ys) = ascii xs @ ascii ys"
  by (simp add: ascii_def)

lemma take_ascii: "take n (ascii xs) = ascii (take n xs)"
  by (simp add: ascii_def take_map)

lemma ascii_driver_utf8 [simp]: "utf8 ascii_driver (ascii xs) = xs"
proof -
  have "char_of (unat (of_nat (of_char c) :: 16 word)) = c" for c :: char
  proof -
    have "(of_char c :: nat) < 2 ^ 16"
      by (rule less_trans[OF nat_of_char_less_256]) simp
    then have "unat (of_nat (of_char c) :: 16 word) = of_char c"
      by (simp add: unat_of_nat)
    then show ?thesis by simp
  qed
  then show ?thesis by (simp add: ascii_driver_def ascii_def comp_def)
qed

lemma find_append_last:
  "\<forall>x \<in> set xs. \<not> P x \<Longrightarrow> P y \<Longrightarrow> find P (xs @ [y]) = Some y"
  by (induction xs) auto

lemma addTask_inserts:
  assumes "\<not> foreign_keys s \<or> getGoal gid s \<noteq> None"
    and "list_all (\<lambda>t. t_id t \<le> task_seq s) (tasks s)"
  shows "\<exists>row s'. addTask gid title opts s = Inr (row, s') \<and>
           t_id row = Suc (task_seq s) \<and> goal_id row = gid \<and> t_title row = title \<and>
           t_description row = o_t_description opts \<and> t_status row = T_pending \<and>
           depends_on row = (case o_dependsOn opts of None \<Rightarrow> [] | Some ds \<Rightarrow> ds) \<and>
           requires_approval row = (o_requiresApproval opts = Some True) \<and>
           approved_at row = None \<and> retry_count row = 0 \<and> max_retries row = 3 \<and>
           tasks s' = tasks s @ [row] \<and> task_seq s' = Suc (task_seq s) \<and>
           goals s' = goals s \<and> goal_seq s' = goal_seq s \<and> foreign_keys s' = foreign_keys s \<and>
           audit_events s' = audit_events s @
             [\<lparr>a_id = Suc (audit_seq s), event_type = ''task.created'', entity_type = Some ''task'',
               entity_id = Some (Suc (task_seq s)), action = ''task.created'', details = Some title,
               a_created_at = clock s 1\<rparr>]"
proof -
  let ?row = "\<lparr>t_id = Suc (task_seq s), goal_id = gid, t_title = title,
                t_description = o_t_description opts, t_status = T_pending,
                skill = o_skill opts,
                t_input = (case o_input opts of None \<Rightarrow> J_obj [] | Some j \<Rightarrow> j),
                t_output = None,
                depends_on = (case o_dependsOn opts of None \<Rightarrow> [] | Some ds \<Rightarrow> ds),
                scheduled_at = o_scheduledAt opts, started_at = None, completed_at = None,
                retry_count = 0, max_retries = 3, error = None,
                requires_approval = (o_requiresApproval opts = Some True),
                approved_at = None, t_created_at = now s\<rparr>"
  from assms(2) have "\<forall>t \<in> set (tasks s). \<not> t_id t = Suc (task_seq s)"
    by (auto simp: list_all_iff)
  then have "find (\<lambda>t. t_id t = Suc (task_seq s)) (tasks s @ [?row]) = Some ?row"
    by (rule find_append_last) simp
  with assms(1) show ?thesis
    by (simp add: addTask_def Let_def getTask_def logAudit_def tick_def now_def)
qed

lemma text_arg_text:
  "text_or_absent v \<Longrightarrow>
     text_arg drv v = Some (case non_null v of None \<Rightarrow> None | Some x \<Rightarrow> Some (utf8 drv (the_text x)))"
  by (cases "(drv, v)" rule: text_arg.cases) simp_all

lemma typed_args_storable:
  assumes "is_text title" "text_or_absent description" "text_or_absent skill_arg"
  shows "typed_args drv title description skill_arg =
    Some (utf8 drv (the_text title),
          (case non_null description of None \<Rightarrow> None | Some x \<Rightarrow> Some (utf8 drv (the_text x))),
          (case non_null skill_arg of None \<Rightarrow> None | Some x \<Rightarrow> Some (utf8 drv (the_text x))))"
  using assms(1)
  by (cases title) (simp_all add: typed_args_def text_arg_text[OF assms(2)] text_arg_text[OF assms(3)])

lemma addTask_unchecked_inserts:
  assumes "is_text title" "is_text description" "text_or_absent skill_arg"
    and "\<not> foreign_keys s \<or> getGoal gid s \<noteq> None"
    and "list_all (\<lambda>t. t_id t \<le> task_seq s) (tasks s)"
  shows "\<exists>row s'. addTask_unchecked drv gid title (Some description) skill_arg input_arg deps approval s =
             (Inr row, s') \<and>
           t_id row = Suc (task_seq s) \<and> goal_id row = gid \<and>
           t_title row = utf8 drv (the_text title) \<and>
           t_description row = Some (utf8 drv (the_text description)) \<and>
           t_status row = T_pending \<and> depends_on row = deps \<and>
           requires_approval row = truthy approval \<and> approved_at row = None \<and>
           tasks s' = tasks s @ [row] \<and> task_seq s' = Suc (task_seq s) \<and>
           goals s' = goals s \<and> foreign_keys s' = foreign_keys s"
proof -
  from assms(2) have d: "text_or_absent (Some description)" "non_null (Some description) = Some description"
    by (cases description; simp)+
  let ?opts = "\<lparr>o_t_description = Some (utf8 drv (the_text description)),
                 o_skill = (case non_null skill_arg of None \<Rightarrow> None
                            | Some x \<Rightarrow> Some (utf8 drv (the_text x))),
                 o_input = non_null input_arg, o_dependsOn = Some deps,
                 o_requiresApproval = Some (truthy approval), o_scheduledAt = None\<rparr>"
  from addTask_inserts[OF assms(4,5), of "utf8 drv (the_text title)" ?opts]
  obtain row s' where "addTask gid (utf8 drv (the_text title)) ?opts s = Inr (row, s')"
    and "t_id row = Suc (task_seq s)" "goal_id row = gid"
      "t_title row = utf8 drv (the_text title)"
      "t_description row = Some (utf8 drv (the_text description))"
      "t_status row = T_pending" "depends_on row = deps"
      "requires_approval row = truthy approval" "approved_at row = None"
      "tasks s' = tasks s @ [row]" "task_seq s' = Suc (task_seq s)"
      "goals s' = goals s" "foreign_keys s' = foreign_keys s"
    by auto
  then show ?thesis
    by (simp add: addTask_unchecked_def typed_args_storable[OF assms(1) d(1) assms(3)] d(2))
qed

lemma resolve_iterable:
  "iterable_deps taskDef \<Longrightarrow> resolve m taskDef = Some (resolve_deps m (deps_of taskDef))"
  by (auto simp: iterable_deps_def resolve_def deps_of_def split: option.splits)

lemma resolve_deps_filter:
  "resolve_deps m idx = map (\<lambda>d. the (map_get m d)) (filter (\<lambda>d. map_get m d \<noteq> None) idx)"
  by (induction idx) (auto split: option.splits)

lemma map_get_prefix:
  assumes "\<And>j. m j = (if j < length created then Some (t_id (created ! j)) else None)"
  shows "map_get m d =
     (if is_position d \<and> position d < length created then Some (t_id (created ! position d))
      else None)"
  by (cases d) (simp_all add: index_get_def assms)

lemma resolve_deps_prefix:
  assumes "\<And>j. m j = (if j < length created then Some (t_id (created ! j)) else None)"
  shows "resolve_deps m idx = map (\<lambda>d. t_id (created ! position d)) (earlier (length created) idx)"
  unfolding resolve_deps_filter earlier_def map_get_prefix[of m created, OF assms]
  by (auto intro!: map_cong filter_cong)

lemma earlier_position: "d \<in> set (earlier k idx) \<Longrightarrow> position d < k"
  by (simp add: earlier_def)

lemma create_loop_spec:
  assumes "\<not> foreign_keys s \<or> getGoal gid s \<noteq> None"
    and "list_all (\<lambda>t. t_id t \<le> task_seq s) (tasks s)"
    and "\<And>j. m j = (if j < length created then Some (t_id (created ! j)) else None)"
    and "i = length created"
    and "list_all storable defs"
  shows "\<exists>new s'. create_loop drv gid i defs m created s = (Inr (created @ new), s') \<and>
           length new = length defs \<and> tasks s' = tasks s @ new \<and>
           task_seq s' = task_seq s + length defs \<and> goals s' = goals s \<and>
           (\<forall>k < length defs.
              t_id (new ! k) = task_seq s + k + 1 \<and> goal_id (new ! k) = gid \<and>
              t_title (new ! k) = utf8 drv (the_text (d_title (defs ! k))) \<and>
              t_description (new ! k) = Some (utf8 drv (the_text (d_description (defs ! k)))) \<and>
              t_status (new ! k) = T_pending \<and> approved_at (new ! k) = None \<and>
              requires_approval (new ! k) =
                truthy (coalesce (requiresApproval (defs ! k)) (J_bool False)) \<and>
              depends_on (new ! k) =
                map (\<lambda>d. t_id ((created @ new) ! position d)) (earlier (i + k) (deps_of (defs ! k))))"
  using assms
proof (induction defs arbitrary: s m created i)
  case Nil
  then show ?case by simp
next
  case (Cons taskDef rest)
  from Cons.prems(5) have "storable taskDef" and rest: "list_all storable rest"
    by simp_all
  then have st: "is_text (d_title taskDef)" "is_text (d_description taskDef)"
    "text_or_absent (d_skill taskDef)" "iterable_deps taskDef"
    by (simp_all add: storable_def)
  let ?deps = "resolve_deps m (deps_of taskDef)"
  let ?appr = "coalesce (requiresApproval taskDef) (J_bool False)"
  from addTask_unchecked_inserts[OF st(1,2,3) Cons.prems(1,2),
      of drv "d_input taskDef" ?deps ?appr]
  obtain row s1 where
    add: "addTask_unchecked drv gid (d_title taskDef) (Some (d_description taskDef))
            (d_skill taskDef) (d_input taskDef) ?deps ?appr s = (Inr row, s1)"
    and row: "t_id row = Suc (task_seq s)" "goal_id row = gid"
      "t_title row = utf8 drv (the_text (d_title taskDef))"
      "t_description row = Some (utf8 drv (the_text (d_description taskDef)))"
      "t_status row = T_pending" "depends_on row = ?deps"
      "requires_approval row = truthy ?appr" "approved_at row = None"
    and s1: "tasks s1 = tasks s @ [row]" "task_seq s1 = Suc (task_seq s)" "goals s1 = goals s"
      "foreign_keys s1 = foreign_keys s"
    by blast
  have deps: "?deps = map (\<lambda>d. t_id (created ! position d)) (earlier (length created) (deps_of taskDef))"
    by (rule resolve_deps_prefix[of m created, OF Cons.prems(3)])
  have fk1: "\<not> foreign_keys s1 \<or> getGoal gid s1 \<noteq> None"
    using Cons.prems(1) s1 by (simp add: getGoal_def)
  have seq1: "list_all (\<lambda>t. t_id t \<le> task_seq s1) (tasks s1)"
    using Cons.prems(2) s1 row(1) by (auto simp: list_all_iff)
  have m1: "(m(i \<mapsto> t_id row)) j =
      (if j < length (created @ [row]) then Some (t_id ((created @ [row]) ! j)) else None)" for j
    using Cons.prems(3,4) by (auto simp: nth_append)
  have i1: "Suc i = length (created @ [row])" using Cons.prems(4) by simp
  from Cons.IH[OF fk1 seq1 m1 i1 rest]
  obtain new' s' where
    loop: "create_loop drv gid (Suc i) rest (m(i \<mapsto> t_id row)) (created @ [row]) s1 =
             (Inr ((created @ [row]) @ new'), s')"
    and len: "length new' = length rest"
    and tasks': "tasks s' = tasks s1 @ new'" "task_seq s' = task_seq s1 + length rest"
      "goals s' = goals s1"
    and each: "\<And>k. k < length rest \<Longrightarrow>
        t_id (new' ! k) = task_seq s1 + k + 1 \<and> goal_id (new' ! k) = gid \<and>
        t_title (new' ! k) = utf8 drv (the_text (d_title (rest ! k))) \<and>
        t_description (new' ! k) = Some (utf8 drv (the_text (d_description (rest ! k)))) \<and>
        t_status (new' ! k) = T_pending \<and> approved_at (new' ! k) = None \<and>
        requires_approval (new' ! k) =
          truthy (coalesce (requiresApproval (rest ! k)) (J_bool False)) \<and>
        depends_on (new' ! k) =
          map (\<lambda>d. t_id (((created @ [row]) @ new') ! position d))
            (earlier (Suc i + k) (deps_of (rest ! k)))"
    by blast
  have run: "create_loop drv gid i (taskDef # rest) m created s = (Inr (created @ row # new'), s')"
    using add loop by (simp add: resolve_iterable[OF st(4)])
  have first: "depends_on row =
      map (\<lambda>d. t_id ((created @ row # new') ! position d)) (earlier i (deps_of taskDef))"
    unfolding row(6) deps Cons.prems(4)
    by (rule map_cong[OF refl]) (auto dest: earlier_position simp: nth_append)
  have "t_id ((row # new') ! k) = task_seq s + k + 1 \<and> goal_id ((row # new') ! k) = gid \<and>
        t_title ((row # new') ! k) = utf8 drv (the_text (d_title ((taskDef # rest) ! k))) \<and>
        t_description ((row # new') ! k) =
          Some (utf8 drv (the_text (d_description ((taskDef # rest) ! k)))) \<and>
        t_status ((row # new') ! k) = T_pending \<and> approved_at ((row # new') ! k) = None \<and>
        requires_approval ((row # new') ! k) =
          truthy (coalesce (requiresApproval ((taskDef # rest) ! k)) (J_bool False)) \<and>
        depends_on ((row # new') ! k) =
          map (\<lambda>d. t_id ((created @ row # new') ! position d))
            (earlier (i + k) (deps_of ((taskDef # rest) ! k)))"
    if "k < length (taskDef # rest)" for k
  proof (cases k)
    case 0
    with row first show ?thesis by simp
  next
    case (Suc k')
    with that have "k' < length rest" by simp
    from each[OF this] Suc s1(2) show ?thesis by simp
  qed
  with run len tasks' s1 show ?case
    by (intro exI[of _ "row # new'"] exI[of _ s']) simp
qed

lemma resolve_SomeD:
  "resolve m taskDef = Some ds \<Longrightarrow> ds = resolve_deps m (deps_of taskDef)"
  by (auto simp: resolve_def deps_of_def split: option.splits if_splits)

lemma addTask_unchecked_row:
  assumes "list_all (\<lambda>t. t_id t \<le> task_seq s) (tasks s)"
  shows "\<exists>r s'. addTask_unchecked drv gid title description skill_arg input_arg deps approval s = (r, s') \<and>
           goals s' = goals s \<and> foreign_keys s' = foreign_keys s \<and>
           ((tasks s' = tasks s \<and> task_seq s' = task_seq s \<and> (\<exists>e. r = Inl e)) \<or>
            (\<exists>row. tasks s' = tasks s @ [row] \<and> task_seq s' = Suc (task_seq s) \<and>
               t_id row = Suc (task_seq s) \<and> goal_id row = gid \<and> depends_on row = deps \<and>
               requires_approval row = truthy approval \<and>
               (r = Inr row \<or> (\<exists>e. r = Inl e))))"
proof (cases "typed_args drv title description skill_arg")
  case (Some tdk)
  obtain t d k where tdk: "tdk = (t, d, k)" by (cases tdk)
  let ?opts = "\<lparr>o_t_description = d, o_skill = k, o_input = non_null input_arg,
                 o_dependsOn = Some deps, o_requiresApproval = Some (truthy approval),
                 o_scheduledAt = None\<rparr>"
  show ?thesis
  proof (cases "foreign_keys s \<and> getGoal gid s = None")
    case True
    then have "addTask gid t ?opts s = Inl Constraint_failed" by (simp add: addTask_def)
    with Some tdk show ?thesis by (simp add: addTask_unchecked_def)
  next
    case False
    then have fk: "\<not> foreign_keys s \<or> getGoal gid s \<noteq> None" by simp
    from addTask_inserts[OF fk assms, of t ?opts]
    obtain row s' where "addTask gid t ?opts s = Inr (row, s')"
      "t_id row = Suc (task_seq s)" "goal_id row = gid" "depends_on row = deps"
      "requires_approval row = truthy approval"
      "tasks s' = tasks s @ [row]" "task_seq s' = Suc (task_seq s)"
      "goals s' = goals s" "foreign_keys s' = foreign_keys s"
      by auto
    with Some tdk show ?thesis by (simp add: addTask_unchecked_def)
  qed
next
  case None
  show ?thesis
  proof (cases "bind_columns drv title description skill_arg")
    case bc: None
    with None show ?thesis by (simp add: addTask_unchecked_def)
  next
    case bc: (Some tdk)
    obtain t d k where tdk: "tdk = (t, d, k)" by (cases tdk)
    show ?thesis
    proof (cases "foreign_keys s \<and> getGoal gid s = None")
      case True
      with None bc tdk show ?thesis by (simp add: addTask_unchecked_def)
    next
      case False
      let ?row = "\<lparr>t_id = Suc (task_seq s), goal_id = gid, t_title = t, t_description = d,
                    t_status = T_pending, skill = k,
                    t_input = (case non_null input_arg of None \<Rightarrow> J_obj [] | Some j \<Rightarrow> j),
                    t_output = None, depends_on = deps, scheduled_at = None,
                    started_at = None, completed_at = None, retry_count = 0,
                    max_retries = 3, error = None, requires_approval = truthy approval,
                    approved_at = None, t_created_at = now s\<rparr>"
      from assms have "\<forall>x \<in> set (tasks s). \<not> t_id x = Suc (task_seq s)"
        by (auto simp: list_all_iff)
      then have f: "find (\<lambda>x. t_id x = Suc (task_seq s)) (tasks s @ [?row]) = Some ?row"
        by (rule find_append_last) simp
      show ?thesis
      proof (cases "bind_details drv title")
        case bd: None
        with None bc tdk False show ?thesis
          by (simp add: addTask_unchecked_def Let_def tick_def)
      next
        case bd: (Some dt)
        with None bc tdk False f show ?thesis
          by (simp add: addTask_unchecked_def Let_def tick_def logAudit_def getTask_def)
      qed
    qed
  qed
qed

lemma create_loop_rows:
  assumes "list_all (\<lambda>t. t_id t \<le> task_seq s) (tasks s)"
    and "\<And>j. m j = (if j < length created then Some (t_id (created ! j)) else None)"
    and "i = length created"
  shows "\<exists>new. tasks (snd (create_loop drv gid i defs m created s)) = tasks s @ new \<and>
           length new \<le> length defs \<and>
           goals (snd (create_loop drv gid i defs m created s)) = goals s \<and>
           (\<forall>k < length new.
              t_id (new ! k) = task_seq s + k + 1 \<and> goal_id (new ! k) = gid \<and>
              requires_approval (new ! k) =
                truthy (coalesce (requiresApproval (defs ! k)) (J_bool False)) \<and>
              depends_on (new ! k) =
                map (\<lambda>d. t_id ((created @ new) ! position d)) (earlier (i + k) (deps_of (defs ! k))))"
  using assms
proof (induction defs arbitrary: s m created i)
  case Nil
  then show ?case by simp
next
  case (Cons taskDef rest)
  show ?case
  proof (cases "resolve m taskDef")
    case None
    then show ?thesis by (intro exI[of _ "[]"]) simp
  next
    case (Some ds)
    then have ds: "ds = resolve_deps m (deps_of taskDef)" by (rule resolve_SomeD)
    have deps: "ds = map (\<lambda>d. t_id (created ! position d)) (earlier (length created) (deps_of taskDef))"
      unfolding ds by (rule resolve_deps_prefix[of m created, OF Cons.prems(2)])
    let ?appr = "coalesce (requiresApproval taskDef) (J_bool False)"
    from addTask_unchecked_row[OF Cons.prems(1), of drv gid "d_title taskDef"
        "Some (d_description taskDef)" "d_skill taskDef" "d_input taskDef" ds ?appr]
    obtain r s1 where
      add: "addTask_unchecked drv gid (d_title taskDef) (Some (d_description taskDef))
              (d_skill taskDef) (d_input taskDef) ds ?appr s = (r, s1)"
      and g1: "goals s1 = goals s"
      and alt: "(tasks s1 = tasks s \<and> task_seq s1 = task_seq s \<and> (\<exists>e. r = Inl e)) \<or>
            (\<exists>row. tasks s1 = tasks s @ [row] \<and> task_seq s1 = Suc (task_seq s) \<and>
               t_id row = Suc (task_seq s) \<and> goal_id row = gid \<and> depends_on row = ds \<and>
               requires_approval row = truthy ?appr \<and>
               (r = Inr row \<or> (\<exists>e. r = Inl e)))"
      by blast
    from alt consider
      (nothing) e where "tasks s1 = tasks s" "r = Inl e"
      | (inserted) row where "tasks s1 = tasks s @ [row]" "task_seq s1 = Suc (task_seq s)"
          "t_id row = Suc (task_seq s)" "goal_id row = gid" "depends_on row = ds"
          "requires_approval row = truthy ?appr" "r = Inr row \<or> (\<exists>e. r = Inl e)"
      by blast
    then show ?thesis
    proof cases
      case nothing
      with Some add g1 show ?thesis by (intro exI[of _ "[]"]) simp
    next
      case inserted
      then have s1: "tasks s1 = tasks s @ [row]" "task_seq s1 = Suc (task_seq s)"
        and row: "t_id row = Suc (task_seq s)" "goal_id row = gid" "depends_on row = ds"
          "requires_approval row = truthy ?appr"
        and r: "r = Inr row \<or> (\<exists>e. r = Inl e)"
        by simp_all
      have first: "depends_on row =
          map (\<lambda>d. t_id ((created @ row # new') ! position d)) (earlier i (deps_of taskDef))" for new'
        unfolding row(3) deps Cons.prems(3)
        by (rule map_cong[OF refl]) (auto dest: earlier_position simp: nth_append)
      from r show ?thesis
      proof
        assume "\<exists>e. r = Inl e"
        then obtain e where "r = Inl e" by blast
        with Some add s1 row g1 first[of "[]"] show ?thesis
          by (intro exI[of _ "[row]"]) simp
      next
        assume rr: "r = Inr row"
        have seq1: "list_all (\<lambda>t. t_id t \<le> task_seq s1) (tasks s1)"
          using Cons.prems(1) s1 row(1) by (auto simp: list_all_iff)
        have m1: "(m(i \<mapsto> t_id row)) j =
            (if j < length (created @ [row]) then Some (t_id ((created @ [row]) ! j)) else None)" for j
          using Cons.prems(2,3) by (auto simp: nth_append)
        have i1: "Suc i = length (created @ [row])" using Cons.prems(3) by simp
        let ?run = "create_loop drv gid (Suc i) rest (m(i \<mapsto> t_id row)) (created @ [row]) s1"
        from Cons.IH[OF seq1 m1 i1]
        obtain new' where tasks': "tasks (snd ?run) = tasks s1 @ new'"
          and len: "length new' \<le> length rest" and goals': "goals (snd ?run) = goals s1"
          and each: "\<And>k. k < length new' \<Longrightarrow>
              t_id (new' ! k) = task_seq s1 + k + 1 \<and> goal_id (new' ! k) = gid \<and>
              requires_approval (new' ! k) =
                truthy (coalesce (requiresApproval (rest ! k)) (J_bool False)) \<and>
              depends_on (new' ! k) =
                map (\<lambda>d. t_id (((created @ [row]) @ new') ! position d))
                  (earlier (Suc i + k) (deps_of (rest ! k)))"
          by blast
        have run: "create_loop drv gid i (taskDef # rest) m created s = ?run"
          using Some add rr by simp
        have "t_id ((row # new') ! k) = task_seq s + k + 1 \<and> goal_id ((row # new') ! k) = gid \<and>
              requires_approval ((row # new') ! k) =
                truthy (coalesce (requiresApproval ((taskDef # rest) ! k)) (J_bool False)) \<and>
              depends_on ((row # new') ! k) =
                map (\<lambda>d. t_id ((created @ row # new') ! position d))
                  (earlier (i + k) (deps_of ((taskDef # rest) ! k)))"
          if "k < length (row # new')" for k
        proof (cases k)
          case 0
          with row first[of new'] show ?thesis by simp
        next
          case (Suc k')
          with that have "k' < length new'" by simp
          from each[OF this] Suc s1(2) show ?thesis by simp
        qed
        with run len tasks' goals' s1 g1 show ?thesis
          by (intro exI[of _ "row # new'"]) simp
      qed
    qed
  qed
qed

text \<open>
  Claim C7. Take a goal that exists in a well-formed store, a context that was gathered
  and a reply that was received. Whatever the reply, the rows \<^verbatim>\<open>decomposeAndCreate\<close> adds
  to the table of tasks are made from the items of the parsed array, in array order and
  from the first on, with the ids the store assigns (the next ones of its counter); each
  is read back as inserted, and its \<^verbatim>\<open>depends_on\<close> lists, for the entries of its
  \<^verbatim>\<open>dependsOnIndex\<close> that name a strictly earlier position, the ids of the tasks created
  at those positions, in order. Entries naming its own or a later position, or no
  position at all (a fraction, a negative number, a string), are dropped, with no error.
  When every task of the decomposition is storable (its title, description and skill are
  strings as declared, so that nothing is left to the driver, and its \<^verbatim>\<open>dependsOnIndex\<close>
  is not a non-zero number, \<^verbatim>\<open>true\<close> or an object, over which the loop throws) and the
  decomposition is presentable (the text of the memory entry can be built), the call
  returns, and the tasks returned are these rows, one for every item.
\<close>

theorem decomposeAndCreate_resolves_dependencies:
  assumes "wf_store s" and "\<not> foreign_keys s \<or> getGoal (g_id gl) s \<noteq> None"
    and "decompose js mem chat gl = Inr result"
  shows "\<exists>new.
           tasks (snd (decomposeAndCreate js drv mem chat gl s)) = tasks s @ new \<and>
           length new \<le> length (d_tasks result) \<and>
           (\<forall>k < length new.
              t_id (new ! k) = task_seq s + k + 1 \<and>
              goal_id (new ! k) = g_id gl \<and>
              getTask (t_id (new ! k)) (snd (decomposeAndCreate js drv mem chat gl s)) =
                Some (new ! k) \<and>
              requires_approval (new ! k) =
                truthy (coalesce (requiresApproval (d_tasks result ! k)) (J_bool False)) \<and>
              depends_on (new ! k) =
                map (\<lambda>d. t_id (new ! position d)) (earlier k (deps_of (d_tasks result ! k)))) \<and>
           (list_all storable (d_tasks result) \<and> presentable result \<longrightarrow>
              fst (decomposeAndCreate js drv mem chat gl s) = Inr new \<and>
              length new = length (d_tasks result) \<and>
              (\<forall>k < length new.
                 t_title (new ! k) = utf8 drv (the_text (d_title (d_tasks result ! k)))))"
proof -
  let ?defs = "d_tasks result"
  let ?run = "create_loop drv (g_id gl) 0 ?defs Map.empty [] s"
  let ?all = "decomposeAndCreate js drv mem chat gl s"
  from assms(1) have seq: "list_all (\<lambda>t. t_id t \<le> task_seq s) (tasks s)"
    and dt: "distinct (map t_id (tasks s))"
    by (simp_all add: wf_store_def)
  have m0: "Map.empty j = (if j < length ([] :: task list) then Some (t_id ([] ! j)) else None)" for j
    by simp
  have same: "tasks (snd ?all) = tasks (snd ?run)"
    using assms(3)
    by (cases ?run rule: prod.exhaust; cases "fst ?run")
       (auto simp: decomposeAndCreate_def logAudit_def tick_def)
  have ret: "fst ?all = fst ?run" if "presentable result"
    using assms(3) that
    by (cases ?run rule: prod.exhaust; cases "fst ?run")
       (auto simp: decomposeAndCreate_def presentable_def)
  from create_loop_rows[OF seq m0, of 0 drv "g_id gl" ?defs]
  obtain new where tasks': "tasks (snd ?run) = tasks s @ new"
    and len: "length new \<le> length ?defs"
    and each: "\<And>k. k < length new \<Longrightarrow>
        t_id (new ! k) = task_seq s + k + 1 \<and> goal_id (new ! k) = g_id gl \<and>
        requires_approval (new ! k) =
          truthy (coalesce (requiresApproval (?defs ! k)) (J_bool False)) \<and>
        depends_on (new ! k) =
          map (\<lambda>d. t_id (new ! position d)) (earlier k (deps_of (?defs ! k)))"
    by auto
  have ids: "map t_id new = map (\<lambda>k. task_seq s + k + 1) [0..<length new]"
    by (rule nth_equalityI) (use each in auto)
  have "distinct (map t_id new)"
    unfolding ids by (simp add: distinct_map inj_on_def)
  moreover have "set (map t_id (tasks s)) \<inter> set (map t_id new) = {}"
    unfolding ids using seq by (auto simp: list_all_iff)
  ultimately have "distinct (map t_id (tasks (snd ?all)))"
    using dt unfolding same tasks' by simp
  then have readback: "getTask (t_id (new ! k)) (snd ?all) = Some (new ! k)"
    if "k < length new" for k
    using that by (intro getTask_member) (simp_all add: same tasks')
  have all: "fst ?all = Inr new \<and> length new = length ?defs \<and>
      (\<forall>k < length new. t_title (new ! k) = utf8 drv (the_text (d_title (?defs ! k))))"
    if st: "list_all storable ?defs" and pr: "presentable result"
  proof -
    from create_loop_spec[OF assms(2) seq m0 _ st, of 0 drv]
    obtain new1 s1 where loop: "?run = (Inr new1, s1)"
      and len1: "length new1 = length ?defs" and tasks1: "tasks s1 = tasks s @ new1"
      and titles: "\<And>k. k < length ?defs \<Longrightarrow>
          t_title (new1 ! k) = utf8 drv (the_text (d_title (?defs ! k)))"
      by auto
    from tasks' loop tasks1 have "new1 = new" by simp
    with loop len1 titles ret[OF pr] show ?thesis by simp
  qed
  from len each readback all show ?thesis
    unfolding same tasks' by (intro exI[of _ new]) simp
qed

text \<open>
  The reply [A, B(dependsOnIndex = [0])] for goal 1 of \<open>retry_scenario\<close>, whose task counter
  stands at 1: A gets id 2, B gets id 3, and B depends on 2, not on 0. The reply
  [A, B, C, D] with fields of other types: B depends on A alone and requires approval,
  C depends on nothing, D on B and twice on A. The reply whose second task cannot be run
  through: the call throws, and the first task stays in the store. And the reply whose
  reasoning has no string: the call throws after its task was created.
\<close>

theorem decomposeAndCreate_resolves_dependencies_witness:
  "wf_store retry_scenario \<and>
   getGoal (g_id (fresh_goal 1 ''G'' 5)) retry_scenario \<noteq> None \<and>
   map t_id (tasks retry_scenario) = [1] \<and>
   map_sum id (\<lambda>r. map d_title (d_tasks r)) (decompose plan_js blank_memory (replying (ascii plan_text)) (fresh_goal 1 ''G'' 5)) =
     Inr [J_str (ascii ''A''), J_str (ascii ''B'')] \<and>
   map_sum id (\<lambda>r. map deps_of (d_tasks r)) (decompose plan_js blank_memory (replying (ascii plan_text)) (fresh_goal 1 ''G'' 5)) =
     Inr [[], [J_num 0]] \<and>
   map_sum id (\<lambda>r. list_all storable (d_tasks r))
     (decompose plan_js blank_memory (replying (ascii plan_text)) (fresh_goal 1 ''G'' 5)) = Inr True \<and>
   map_sum id (map t_id)
     (fst (decomposeAndCreate plan_js ascii_driver blank_memory (replying (ascii plan_text))
            (fresh_goal 1 ''G'' 5) retry_scenario)) = Inr [2, 3] \<and>
   map_sum id (map t_title)
     (fst (decomposeAndCreate plan_js ascii_driver blank_memory (replying (ascii plan_text))
            (fresh_goal 1 ''G'' 5) retry_scenario)) = Inr [''A'', ''B''] \<and>
   map_sum id (map depends_on)
     (fst (decomposeAndCreate plan_js ascii_driver blank_memory (replying (ascii plan_text))
            (fresh_goal 1 ''G'' 5) retry_scenario)) = Inr [[], [2]] \<and>
   map t_id (tasks (snd (decomposeAndCreate plan_js ascii_driver blank_memory (replying (ascii plan_text))
            (fresh_goal 1 ''G'' 5) retry_scenario))) = [1, 2, 3] \<and>
   map_sum id (\<lambda>r. list_all storable (d_tasks r))
     (decompose plan_js blank_memory (replying (ascii loose_text)) (fresh_goal 1 ''G'' 5)) = Inr True \<and>
   map_sum id (map t_id)
     (fst (decomposeAndCreate plan_js ascii_driver blank_memory (replying (ascii loose_text))
            (fresh_goal 1 ''G'' 5) retry_scenario)) = Inr [2, 3, 4, 5] \<and>
   map_sum id (map t_title)
     (fst (decomposeAndCreate plan_js ascii_driver blank_memory (replying (ascii loose_text))
            (fresh_goal 1 ''G'' 5) retry_scenario)) = Inr [''A'', ''B'', ''C'', ''D''] \<and>
   map_sum id (map depends_on)
     (fst (decomposeAndCreate plan_js ascii_driver blank_memory (replying (ascii loose_text))
            (fresh_goal 1 ''G'' 5) retry_scenario)) = Inr [[], [2], [], [3, 2, 2]] \<and>
   map_sum id (map requires_approval)
     (fst (decomposeAndCreate plan_js ascii_driver blank_memory (replying (ascii loose_text))
            (fresh_goal 1 ''G'' 5) retry_scenario)) = Inr [False, True, False, False] \<and>
   map_sum id presentable (decompose plan_js blank_memory (replying (ascii plan_text)) (fresh_goal 1 ''G'' 5)) = Inr True \<and>
   map_sum id presentable (decompose plan_js blank_memory (replying (ascii loose_text)) (fresh_goal 1 ''G'' 5)) = Inr True \<and>
   map_sum id (\<lambda>r. list_all storable (d_tasks r))
     (decompose plan_js blank_memory (replying (ascii broken_text)) (fresh_goal 1 ''G'' 5)) = Inr False \<and>
   fst (decomposeAndCreate plan_js ascii_driver blank_memory (replying (ascii broken_text))
            (fresh_goal 1 ''G'' 5) retry_scenario) = Inl Not_iterable \<and>
   map t_id (tasks (snd (decomposeAndCreate plan_js ascii_driver blank_memory (replying (ascii broken_text))
            (fresh_goal 1 ''G'' 5) retry_scenario))) = [1, 2] \<and>
   map_sum id presentable (decompose plan_js blank_memory (replying (ascii opaque_text)) (fresh_goal 1 ''G'' 5)) = Inr False \<and>
   fst (decomposeAndCreate plan_js ascii_driver blank_memory (replying (ascii opaque_text))
            (fresh_goal 1 ''G'' 5) retry_scenario) = Inl Not_primitive \<and>
   map t_id (tasks (snd (decomposeAndCreate plan_js ascii_driver blank_memory (replying (ascii opaque_text))
            (fresh_goal 1 ''G'' 5) retry_scenario))) = [1, 2]"
proof -
  have wf: "wf_store retry_scenario"
    by (simp add: wf_store_def retry_scenario_def scenario_defs)
  have gl: "getGoal (g_id (fresh_goal 1 ''G'' 5)) retry_scenario \<noteq> None"
    by (simp add: getGoal_def retry_scenario_def scenario_defs)
  have seq: "task_seq retry_scenario = 1" by (simp add: retry_scenario_def store_of_def)
  have old: "map t_id (tasks retry_scenario) = [1]"
    by (simp add: retry_scenario_def scenario_defs)
  note texts = plan_text_def loose_text_def broken_text_def opaque_text_def
  define plan where "plan = parseResponse plan_js (ascii plan_text)"
  define loose where "loose = parseResponse plan_js (ascii loose_text)"
  define broken where "broken = parseResponse plan_js (ascii broken_text)"
  define opaque where "opaque = parseResponse plan_js (ascii opaque_text)"
  have dec: "decompose plan_js blank_memory (replying (ascii plan_text)) (fresh_goal 1 ''G'' 5) = Inr plan"
    "decompose plan_js blank_memory (replying (ascii loose_text)) (fresh_goal 1 ''G'' 5) = Inr loose"
    "decompose plan_js blank_memory (replying (ascii broken_text)) (fresh_goal 1 ''G'' 5) = Inr broken"
    "decompose plan_js blank_memory (replying (ascii opaque_text)) (fresh_goal 1 ''G'' 5) = Inr opaque"
    by (simp_all add: decompose_def blank_memory_def replying_def plan_def loose_def broken_def
        opaque_def)
  have plan: "d_tasks plan =
      [\<lparr>d_title = J_str (ascii ''A''), d_description = J_str (ascii ''first''), d_skill = None,
        dependsOnIndex = Some (J_arr []), requiresApproval = Some (J_bool False),
        d_input = Some (J_obj [])\<rparr>,
       \<lparr>d_title = J_str (ascii ''B''), d_description = J_str (ascii ''second''), d_skill = None,
        dependsOnIndex = Some (J_arr [J_num 0]), requiresApproval = Some (J_bool False),
        d_input = Some (J_obj [])\<rparr>]"
    by (simp add: plan_def parseResponse_def plan_js_def plan_json_def parse_task_def)
  have loose: "d_tasks loose =
      [\<lparr>d_title = J_str (ascii ''A''), d_description = J_str [], d_skill = None,
        dependsOnIndex = Some (J_arr []), requiresApproval = Some (J_bool False),
        d_input = Some (J_obj [])\<rparr>,
       \<lparr>d_title = J_str (ascii ''B''), d_description = J_str [], d_skill = None,
        dependsOnIndex =
          Some (J_arr [J_num 0, J_str (ascii ''0''), J_num 2, J_num 1, J_num (1 / 2), J_num (- 1)]),
        requiresApproval = Some (J_str (ascii ''yes'')), d_input = Some (J_obj [])\<rparr>,
       \<lparr>d_title = J_str (ascii ''C''), d_description = J_str [], d_skill = None,
        dependsOnIndex = Some (J_str (ascii ''01'')), requiresApproval = Some (J_num 0),
        d_input = Some (J_obj [])\<rparr>,
       \<lparr>d_title = J_str (ascii ''D''), d_description = J_str [], d_skill = None,
        dependsOnIndex = Some (J_arr [J_num 1, J_num 0, J_num 0]),
        requiresApproval = Some (J_bool False), d_input = Some (J_obj [])\<rparr>]"
    by (simp add: loose_def parseResponse_def plan_js_def loose_json_def parse_task_def
        texts)
  have broken: "d_tasks broken =
      [\<lparr>d_title = J_str (ascii ''A''), d_description = J_str [], d_skill = None,
        dependsOnIndex = Some (J_arr []), requiresApproval = Some (J_bool False),
        d_input = Some (J_obj [])\<rparr>,
       \<lparr>d_title = J_str (ascii ''B''), d_description = J_str [], d_skill = None,
        dependsOnIndex = Some (J_num 7), requiresApproval = Some (J_bool False),
        d_input = Some (J_obj [])\<rparr>]"
    by (simp add: broken_def parseResponse_def plan_js_def broken_json_def parse_task_def
        texts)
  have opaque: "d_tasks opaque =
      [\<lparr>d_title = J_str (ascii ''A''), d_description = J_str [], d_skill = None,
        dependsOnIndex = Some (J_arr []), requiresApproval = Some (J_bool False),
        d_input = Some (J_obj [])\<rparr>]"
    "reasoning opaque = J_obj [(ascii ''toString'', J_num 1)]"
    by (simp_all add: opaque_def parseResponse_def plan_js_def opaque_json_def parse_task_def
        texts)
  have pr: "presentable plan" "presentable loose" "\<not> presentable opaque"
    by (simp_all add: presentable_def plan_def loose_def opaque_def parseResponse_def
        plan_js_def plan_json_def loose_json_def opaque_json_def texts)
  have st: "list_all storable (d_tasks plan)" "list_all storable (d_tasks loose)"
    "\<not> list_all storable (d_tasks broken)"
    by (simp_all add: plan loose broken storable_def iterable_deps_def)
  have half: "\<lfloor>1 / 2 :: rat\<rfloor> = 0"
    by (rule floor_unique) simp_all
  have str: "earlier k (map J_str xs) = []" for k xs
    by (simp add: earlier_def filter_map comp_def)
  let ?run = "\<lambda>text. decomposeAndCreate plan_js ascii_driver blank_memory (replying (ascii text))
            (fresh_goal 1 ''G'' 5) retry_scenario"
  from decomposeAndCreate_resolves_dependencies[OF wf disjI2[OF gl] dec(1), of ascii_driver] st(1) pr(1)
  obtain created where
    run: "fst (?run plan_text) = Inr created"
    and rows: "tasks (snd (?run plan_text)) = tasks retry_scenario @ created"
    and len: "length created = 2"
    and each: "\<And>k. k < 2 \<Longrightarrow>
        t_id (created ! k) = task_seq retry_scenario + k + 1 \<and>
        t_title (created ! k) = utf8 ascii_driver (the_text (d_title (d_tasks plan ! k))) \<and>
        depends_on (created ! k) =
          map (\<lambda>d. t_id (created ! position d)) (earlier k (deps_of (d_tasks plan ! k)))"
    by (auto simp: plan)
  from len obtain a b where ab: "created = [a, b]"
    by (auto simp: length_Suc_conv numeral_2_eq_2)
  from each[of 0] each[of 1] have first:
    "t_id a = 2" "t_id b = 3" "t_title a = ''A''" "t_title b = ''B''"
    "depends_on a = []" "depends_on b = [2]"
    by (simp_all add: ab seq plan deps_of_def earlier_def)
  from decomposeAndCreate_resolves_dependencies[OF wf disjI2[OF gl] dec(2), of ascii_driver] st(2) pr(2)
  obtain created2 where
    run2: "fst (?run loose_text) = Inr created2"
    and len2: "length created2 = 4"
    and each2: "\<And>k. k < 4 \<Longrightarrow>
        t_id (created2 ! k) = task_seq retry_scenario + k + 1 \<and>
        t_title (created2 ! k) = utf8 ascii_driver (the_text (d_title (d_tasks loose ! k))) \<and>
        requires_approval (created2 ! k) =
          truthy (coalesce (requiresApproval (d_tasks loose ! k)) (J_bool False)) \<and>
        depends_on (created2 ! k) =
          map (\<lambda>d. t_id (created2 ! position d)) (earlier k (deps_of (d_tasks loose ! k)))"
    by (auto simp: loose)
  from len2 obtain a2 b2 c2 d2 where abcd: "created2 = [a2, b2, c2, d2]"
    by (auto simp: length_Suc_conv numeral_eq_Suc)
  from each2[of 0] each2[of 1] each2[of 2] each2[of 3] have second:
    "t_id a2 = 2" "t_id b2 = 3" "t_id c2 = 4" "t_id d2 = 5"
    "t_title a2 = ''A''" "t_title b2 = ''B''" "t_title c2 = ''C''" "t_title d2 = ''D''"
    "depends_on a2 = []" "depends_on b2 = [2]" "depends_on c2 = []" "depends_on d2 = [3, 2, 2]"
    "\<not> requires_approval a2" "requires_approval b2" "\<not> requires_approval c2"
    "\<not> requires_approval d2"
    by (simp_all add: abcd seq loose deps_of_def str) (simp_all add: earlier_def half)
  have third: "fst (?run broken_text) = Inl Not_iterable"
    "map t_id (tasks (snd (?run broken_text))) = [1, 2]"
    using dec(3)
    by (simp_all add: decomposeAndCreate_def broken resolve_def addTask_unchecked_def
      typed_args_def addTask_def getGoal_def getTask_def logAudit_def tick_def now_def Let_def
      retry_scenario_def scenario_defs)
  have fourth: "fst (?run opaque_text) = Inl Not_primitive"
    "map t_id (tasks (snd (?run opaque_text))) = [1, 2]"
    using dec(4)
    by (simp_all add: decomposeAndCreate_def opaque resolve_def addTask_unchecked_def
      typed_args_def addTask_def getGoal_def getTask_def logAudit_def tick_def now_def Let_def
      retry_scenario_def scenario_defs)
  from wf gl old dec st pr first second third fourth run run2 rows show ?thesis
    by (simp add: ab abcd plan deps_of_def)
qed


subsection \<open>Degradation on an unparseable reply\<close>

lemma parseResponse_fallback:
  assumes "no_decomposition js content"
  shows "\<exists>message. parseResponse js content = fallback content message"
proof (cases "json_parse js (json_candidate js content)")
  case (Inl message)
  then show ?thesis
    by (auto simp: parseResponse_def json_candidate_def)
next
  case (Inr parsed)
  with assms have na: "\<not> is_array (member parsed (ascii ''tasks''))"
    by (simp add: no_decomposition_def)
  show ?thesis
  proof (cases "parsed = J_null")
    case True
    with Inr show ?thesis by (auto simp: parseResponse_def json_candidate_def)
  next
    case False
    from na have "(case member parsed (ascii ''tasks'') of
               Some (J_arr ts) \<Rightarrow> f ts
             | _ \<Rightarrow> fallback content (ascii ''Response missing tasks array'')) =
          fallback content (ascii ''Response missing tasks array'')"
      for f :: "json list \<Rightarrow> decomposition_result"
      by (cases "member parsed (ascii ''tasks'')" rule: is_array.cases) auto
    with Inr False show ?thesis
      by (auto simp: parseResponse_def json_candidate_def)
  qed
qed

text \<open>
  Claim C8. When the reply yields no decomposition, \<^verbatim>\<open>decomposeAndCreate\<close> (for a goal
  that exists in a well-formed store, the context having been gathered before the reply
  was asked for) returns normally, with exactly one created task: it is appended to the
  store, requires approval, is titled for manual execution and carries as its
  description the fixed preamble followed by the first 200 code units of the raw reply.
\<close>

theorem unparseable_reply_becomes_one_gated_task:
  assumes "wf_store s" and "\<not> foreign_keys s \<or> getGoal (g_id gl) s \<noteq> None"
    and "getContext mem (g_title gl) = Inr memoryContext"
    and "chat gl memoryContext = Inr content"
    and "no_decomposition js content"
  shows "\<exists>tk s'. decomposeAndCreate js drv mem chat gl s = (Inr [tk], s') \<and>
           tasks s' = tasks s @ [tk] \<and>
           requires_approval tk \<and> approved_at tk = None \<and> t_status tk = T_pending \<and>
           goal_id tk = g_id gl \<and> depends_on tk = [] \<and>
           t_title tk = utf8 drv (ascii ''Execute goal manually'') \<and>
           t_description tk =
             Some (utf8 drv (ascii ''LLM decomposition failed. Original response: '' @
                             take 200 content))"
proof -
  from parseResponse_fallback[OF assms(5)] obtain message
    where pr: "parseResponse js content = fallback content message" by blast
  from assms(1) have seq: "list_all (\<lambda>t. t_id t \<le> task_seq s) (tasks s)"
    by (simp add: wf_store_def)
  let ?title = "J_str (ascii ''Execute goal manually'')"
  let ?descr = "J_str (ascii ''LLM decomposition failed. Original response: '' @ take 200 content)"
  have "is_text ?title" "is_text ?descr" "text_or_absent None" by simp_all
  from addTask_unchecked_inserts[OF this assms(2) seq, of drv None "[]" "J_bool True"]
  obtain row s' where
    add: "addTask_unchecked drv (g_id gl) ?title (Some ?descr) None None [] (J_bool True) s =
            (Inr row, s')"
    and row: "goal_id row = g_id gl" "t_title row = utf8 drv (ascii ''Execute goal manually'')"
      "t_description row =
         Some (utf8 drv (ascii ''LLM decomposition failed. Original response: '' @ take 200 content))"
      "t_status row = T_pending" "depends_on row = []" "requires_approval row"
      "approved_at row = None"
    and tasks': "tasks s' = tasks s @ [row]"
    by auto
  let ?s' = "logAudit ''memory.save'' ''memory'' (memory_id mem)
               (entry_text mem (g_title gl) 1 (J_str (ascii ''Decomposition failed: '' @ message))
                  (J_num 60)) s'"
  have "decomposeAndCreate js drv mem chat gl s = (Inr [row], ?s')"
    using pr add assms(3,4)
    by (simp add: decomposeAndCreate_def decompose_def fallback_def resolve_def)
  moreover have "tasks ?s' = tasks s @ [row]"
    using tasks' by (simp add: logAudit_def tick_def)
  ultimately show ?thesis using row by blast
qed

text \<open>
  A reply that is no JSON at all, a reply that is the empty object and a reply of 250
  code units: either way one approval-gated task is created for goal 1 of
  \<open>retry_scenario\<close>, and of the long reply the description keeps 200 code units.
\<close>

theorem unparseable_reply_becomes_one_gated_task_witness:
  "wf_store retry_scenario \<and>
   getGoal (g_id (fresh_goal 1 ''G'' 5)) retry_scenario \<noteq> None \<and>
   getContext blank_memory (g_title (fresh_goal 1 ''G'' 5)) = Inr [] \<and>
   replying long_reply (fresh_goal 1 ''G'' 5) [] = Inr long_reply \<and>
   no_decomposition deaf_js (ascii ''I cannot plan this.'') \<and>
   no_decomposition deaf_js (ascii ''{}'') \<and>
   no_decomposition deaf_js long_reply \<and>
   map_sum id (map requires_approval)
     (fst (decomposeAndCreate deaf_js ascii_driver blank_memory
            (replying (ascii ''I cannot plan this.'')) (fresh_goal 1 ''G'' 5) retry_scenario)) =
     Inr [True] \<and>
   map_sum id (map t_description)
     (fst (decomposeAndCreate deaf_js ascii_driver blank_memory
            (replying (ascii ''I cannot plan this.'')) (fresh_goal 1 ''G'' 5) retry_scenario)) =
     Inr [Some ''LLM decomposition failed. Original response: I cannot plan this.''] \<and>
   map_sum id (map requires_approval)
     (fst (decomposeAndCreate deaf_js ascii_driver blank_memory (replying (ascii ''{}''))
            (fresh_goal 1 ''G'' 5) retry_scenario)) = Inr [True] \<and>
   length long_reply = 250 \<and>
   map_sum id (map requires_approval)
     (fst (decomposeAndCreate deaf_js ascii_driver blank_memory (replying long_reply)
            (fresh_goal 1 ''G'' 5) retry_scenario)) = Inr [True] \<and>
   map_sum id (map t_description)
     (fst (decomposeAndCreate deaf_js ascii_driver blank_memory (replying long_reply)
            (fresh_goal 1 ''G'' 5) retry_scenario)) =
     Inr [Some (''LLM decomposition failed. Original response: '' @ replicate 200 CHR ''x'')]"
proof -
  have wf: "wf_store retry_scenario"
    by (simp add: wf_store_def retry_scenario_def scenario_defs)
  have gl: "getGoal (g_id (fresh_goal 1 ''G'' 5)) retry_scenario \<noteq> None"
    by (simp add: getGoal_def retry_scenario_def scenario_defs)
  have ctx: "getContext blank_memory (g_title (fresh_goal 1 ''G'' 5)) = Inr []"
    by (simp add: blank_memory_def)
  have re: "replying content (fresh_goal 1 ''G'' 5) [] = Inr content" for content
    by (simp add: replying_def)
  have n1: "no_decomposition deaf_js (ascii ''I cannot plan this.'')"
    and n2: "no_decomposition deaf_js (ascii ''{}'')"
    and n3: "no_decomposition deaf_js long_reply"
    by (simp_all add: no_decomposition_def json_candidate_def deaf_js_def long_reply_def)
  have len: "length long_reply = 250" by (simp add: long_reply_def ascii_def)
  have cut: "ascii ''LLM decomposition failed. Original response: '' @ take 200 long_reply =
     ascii (''LLM decomposition failed. Original response: '' @ replicate 200 CHR ''x'')"
    unfolding long_reply_def take_ascii ascii_append[symmetric] by simp
  have short: "ascii ''LLM decomposition failed. Original response: '' @
       take 200 (ascii ''I cannot plan this.'') =
     ascii ''LLM decomposition failed. Original response: I cannot plan this.''"
    unfolding take_ascii ascii_append[symmetric] by simp
  from unparseable_reply_becomes_one_gated_task[where chat = "replying (ascii ''I cannot plan this.'')"
         and gl = "fresh_goal 1 ''G'' 5" and memoryContext = "[]" and drv = ascii_driver,
         OF wf disjI2[OF gl] ctx re n1]
       unparseable_reply_becomes_one_gated_task[where chat = "replying (ascii ''{}'')"
         and gl = "fresh_goal 1 ''G'' 5" and memoryContext = "[]" and drv = ascii_driver,
         OF wf disjI2[OF gl] ctx re n2]
       unparseable_reply_becomes_one_gated_task[where chat = "replying (long_reply)"
         and gl = "fresh_goal 1 ''G'' 5" and memoryContext = "[]" and drv = ascii_driver,
         OF wf disjI2[OF gl] ctx re n3]
       wf gl ctx re[of long_reply] n1 n2 n3 len
  show ?thesis unfolding cut short by auto
qed
section \<open>Well-formedness is an invariant of the store\<close>

lemma wf_store_ids:
  "wf_store s \<longleftrightarrow>
     distinct (map g_id (goals s)) \<and> distinct (map t_id (tasks s)) \<and>
     (\<forall>i \<in> set (map g_id (goals s)). i \<le> goal_seq s) \<and>
     (\<forall>i \<in> set (map t_id (tasks s)). i \<le> task_seq s)"
  by (auto simp: wf_store_def list_all_iff)

lemma wf_store_empty: "wf_store (empty_store clk fk)"
  by (simp add: wf_store_def empty_store_def)

lemma map_id_update:
  assumes "\<And>x. k (f x) = k x"
  shows "map k (map (\<lambda>x. if P x then f x else x) xs) = map k xs"
  using assms by (induction xs) auto

lemma updateGoalStatus_ids [simp]: "map g_id (goals (updateGoalStatus i st s)) = map g_id (goals s)"
  unfolding updateGoalStatus_goals by (rule map_id_update) simp

lemma updateGoalProgress_ids [simp]:
  "map g_id (goals (updateGoalProgress i s)) = map g_id (goals s)"
proof -
  have "map g_id (map (\<lambda>g. if g_id g = i then g\<lparr>progress := p, updated_at := u\<rparr> else g) xs) =
        map g_id xs" for p u and xs :: "goal list"
    by (rule map_id_update) simp
  then show ?thesis
    by (simp add: updateGoalProgress_def Let_def del: map_map)
qed

lemma startTask_ids [simp]: "map t_id (tasks (startTask i s)) = map t_id (tasks s)"
  unfolding startTask_tasks by (rule map_id_update) simp

lemma completeTask_ids [simp]: "map t_id (tasks (completeTask i out s)) = map t_id (tasks s)"
  unfolding completeTask_tasks by (rule map_id_update) simp

lemma approveTask_ids [simp]: "map t_id (tasks (snd (approveTask i s))) = map t_id (tasks s)"
  unfolding approveTask_tasks by (rule map_id_update) simp

lemma startTask_goals [simp]:
  "goals (startTask i s) = goals s" "goal_seq (startTask i s) = goal_seq s"
  by (simp_all add: startTask_def Let_def)

lemma completeTask_goal_ids [simp]:
  "map g_id (goals (completeTask i out s)) = map g_id (goals s)"
  "goal_seq (completeTask i out s) = goal_seq s"
  by (simp_all add: completeTask_def Let_def split: option.splits)

lemma approveTask_goal_seq [simp]: "goal_seq (snd (approveTask i s)) = goal_seq s"
  by (simp add: approveTask_def Let_def)

lemma wf_store_apply_op:
  assumes "wf_store s"
  shows "wf_store (apply_op op s)"
proof (cases op)
  case (Op_addGoal title opts)
  show ?thesis
  proof (cases "addGoal title opts s")
    case (Inl e)
    with Op_addGoal assms show ?thesis by simp
  next
    case (Inr r)
    then have "goals (snd r) = goals s @
        [\<lparr>g_id = Suc (goal_seq s), g_title = title, g_description = o_description opts,
          g_status = G_active,
          priority = (case o_priority opts of None \<Rightarrow> 5 | Some q \<Rightarrow> q),
          g_created_at = now s, updated_at = now s, deadline = o_deadline opts,
          parent_goal_id = o_parentGoalId opts, progress = 0, metadata = ''{}''\<rparr>]"
      "goal_seq (snd r) = Suc (goal_seq s)" "tasks (snd r) = tasks s" "task_seq (snd r) = task_seq s"
      by (auto simp: addGoal_def Let_def split: if_splits)
    with Op_addGoal Inr assms show ?thesis
      by (auto simp: wf_store_ids)
  qed
next
  case (Op_updateGoalStatus i st)
  with assms show ?thesis by (simp add: wf_store_ids)
next
  case (Op_updateGoalProgress i)
  with assms show ?thesis by (simp add: wf_store_ids)
next
  case (Op_removeGoal i)
  show ?thesis
  proof (cases "removeGoal i s")
    case (Inl e)
    with Op_removeGoal assms show ?thesis by simp
  next
    case (Inr r)
    then have "\<exists>P Q. goals (snd r) = filter P (goals s) \<and> tasks (snd r) = filter Q (tasks s)"
      "goal_seq (snd r) = goal_seq s" "task_seq (snd r) = task_seq s"
      by (auto simp: removeGoal_def Let_def split: if_splits
          intro: exI[of _ "\<lambda>x. True"])
    with Op_removeGoal Inr assms show ?thesis
      by (auto simp: wf_store_def list_all_iff distinct_map_filter)
  qed
next
  case (Op_addTask g title opts)
  show ?thesis
  proof (cases "addTask g title opts s")
    case (Inl e)
    with Op_addTask assms show ?thesis by simp
  next
    case (Inr r)
    from addTask_tasks[OF Inr] obtain row where
      "tasks (snd r) = tasks s @ [row]" "t_id row = Suc (task_seq s)"
      "task_seq (snd r) = Suc (task_seq s)" by blast
    moreover from Inr have "goals (snd r) = goals s" "goal_seq (snd r) = goal_seq s"
      by (auto simp: addTask_def Let_def split: if_splits)
    ultimately show ?thesis
      using Op_addTask Inr assms by (auto simp: wf_store_ids)
  qed
next
  case (Op_startTask i)
  with assms show ?thesis by (simp add: wf_store_ids startTask_tasks(2))
next
  case (Op_completeTask i out)
  with assms show ?thesis by (simp add: wf_store_ids)
next
  case (Op_failTask i err)
  with assms show ?thesis by (simp add: wf_store_ids)
next
  case (Op_approveTask i)
  with assms show ?thesis by (simp add: wf_store_ids)
qed

lemma wf_store_run_ops: "wf_store s \<Longrightarrow> wf_store (run_ops ops s)"
  unfolding run_ops_def by (induction ops arbitrary: s) (simp_all add: wf_store_apply_op)

text \<open>Every store built from the empty database by the operations is well formed.\<close>

lemma wf_store_reachable: "wf_store (run_ops ops (empty_store clk fk))"
  by (rule wf_store_run_ops[OF wf_store_empty])

text \<open>
  The base scenarios have the tables (and counters) of stores that the operations build
  from the empty database; only the audit table, which \<open>store_of\<close> leaves empty, differs.
\<close>

lemma scenarios_reachable:
  "goals recorded_scenario = goals retry_scenario \<and>
   tasks recorded_scenario = tasks retry_scenario \<and>
   task_seq recorded_scenario = task_seq retry_scenario \<and>
   goal_seq recorded_scenario = goal_seq retry_scenario"
  "(let s = run_ops [Op_addGoal ''P5'' (with_priority 5), Op_addGoal ''P1'' (with_priority 1),
                     Op_addTask 1 ''for P5'' (with_approval False),
                     Op_addTask 2 ''for P1'' (with_approval False)] (empty_store (\<lambda>n. 0) True)
    in goals s = goals priority_scenario \<and> tasks s = tasks priority_scenario \<and>
       task_seq s = task_seq priority_scenario \<and> goal_seq s = goal_seq priority_scenario)"
  "(let s = run_ops [Op_addGoal ''G'' (with_priority 5),
                     Op_addTask 1 ''first'' (with_approval False),
                     Op_addTask 1 ''second'' (with_approval False)] (empty_store (\<lambda>n. 0) True)
    in goals s = goals two_task_scenario \<and> tasks s = tasks two_task_scenario \<and>
       task_seq s = task_seq two_task_scenario \<and> goal_seq s = goal_seq two_task_scenario)"
  "(let s = run_ops [Op_addGoal ''G'' (with_priority 5),
                     Op_addTask 1 ''deploy'' (with_approval True)] (empty_store (\<lambda>n. 0) True)
    in goals s = goals gated_scenario \<and> tasks s = tasks gated_scenario \<and>
       task_seq s = task_seq gated_scenario \<and> goal_seq s = goal_seq gated_scenario)"
  by (simp_all add: recorded_scenario_def retry_scenario_def priority_scenario_def
      two_task_scenario_def gated_scenario_def scenario_defs run_ops_def addGoal_def addTask_def
      getGoal_def getTask_def logAudit_def tick_def now_def Let_def empty_store_def
      with_priority_def with_approval_def)

lemma dependency_scenario_reachable:
  "(let s = run_ops [Op_addGoal ''P5'' (with_priority 5), Op_addGoal ''P1'' (with_priority 1),
                     Op_addTask 1 ''setup'' (with_approval False),
                     Op_addTask 2 ''blocked'' (depending_on [5]),
                     Op_addTask 2 ''dangling'' (depending_on [99]),
                     Op_addTask 2 ''gated'' (with_approval True),
                     Op_addTask 1 ''other'' (with_approval False),
                     Op_addTask 2 ''ready'' (depending_on [1]),
                     Op_startTask 1, Op_completeTask 1 ''done''] (empty_store (\<lambda>n. 0) True)
    in goals s = goals dependency_scenario \<and> tasks s = tasks dependency_scenario \<and>
       task_seq s = task_seq dependency_scenario \<and> goal_seq s = goal_seq dependency_scenario)"
  by (simp add: dependency_scenario_def ready_task_def other_task_def scenario_defs run_ops_def
      addGoal_def addTask_def startTask_def completeTask_def updateGoalProgress_def
      updateGoalStatus_def listTasks_def getGoal_def getTask_def logAudit_def tick_def now_def
      Let_def empty_store_def with_priority_def with_approval_def depending_on_def)

end
